theory Spec2Isabelle
  imports Main "HOL-Library.Word" "HOL-Library.Sublist" "HOL-Library.Monad_Syntax"
begin

chapter \<open>The model\<close>

section \<open>Value coercion (enclave executor)\<close>

text \<open>
  Go strings are byte sequences: a \<open>string\<close> here is the list of the bytes of the Go
  string. \<open>int32\<close> is a 32-bit word whose arithmetic wraps around; \<open>sint\<close> reads it
  as the signed value Go works with.
\<close>

type_synonym int32 = "32 word"
type_synonym int64 = "64 word"

definition byte :: "char \<Rightarrow> nat" where
  "byte c = of_char c"

subsection \<open>Iterating a string by code points\<close>

text \<open>
  \<open>for _, c := range s\<close> decodes UTF-8: a well-formed sequence of one to four bytes
  gives its code point, and every byte that does not start one gives U+FFFD and
  advances by a single byte. Overlong forms, surrogates and values above U+10FFFF are
  not well formed.
\<close>

definition RuneError :: nat where
  "RuneError = 0xFFFD"

definition in_range :: "nat \<Rightarrow> nat \<Rightarrow> char \<Rightarrow> bool" where
  "in_range lo hi c = (lo \<le> byte c \<and> byte c \<le> hi)"

definition second_lo :: "nat \<Rightarrow> nat" where
  "second_lo b0 = (if b0 = 0xE0 then 0xA0 else if b0 = 0xF0 then 0x90 else 0x80)"

definition second_hi :: "nat \<Rightarrow> nat" where
  "second_hi b0 = (if b0 = 0xED then 0x9F else if b0 = 0xF4 then 0x8F else 0xBF)"

definition rune_size :: "nat \<Rightarrow> nat" where
  "rune_size b0 =
     (if b0 < 0x80 then 1
      else if 0xC2 \<le> b0 \<and> b0 \<le> 0xDF then 2
      else if 0xE0 \<le> b0 \<and> b0 \<le> 0xEF then 3
      else if 0xF0 \<le> b0 \<and> b0 \<le> 0xF4 then 4
      else 0)"

fun decodeRune :: "char \<Rightarrow> string \<Rightarrow> nat \<times> string" where
  "decodeRune c cs =
     (let b0 = byte c; sz = rune_size b0 in
      if sz = 1 then (b0, cs)
      else if sz = 0 then (RuneError, cs)
      else (case cs of
          [] \<Rightarrow> (RuneError, cs)
        | c1 # r1 \<Rightarrow>
            if \<not> in_range (second_lo b0) (second_hi b0) c1 then (RuneError, cs)
            else if sz = 2 then ((b0 mod 32) * 64 + byte c1 mod 64, r1)
            else (case r1 of
                [] \<Rightarrow> (RuneError, cs)
              | c2 # r2 \<Rightarrow>
                  if \<not> in_range 0x80 0xBF c2 then (RuneError, cs)
                  else if sz = 3 then
                    ((b0 mod 16) * 4096 + (byte c1 mod 64) * 64 + byte c2 mod 64, r2)
                  else (case r2 of
                      [] \<Rightarrow> (RuneError, cs)
                    | c3 # r3 \<Rightarrow>
                        if \<not> in_range 0x80 0xBF c3 then (RuneError, cs)
                        else ((b0 mod 8) * 262144 + (byte c1 mod 64) * 4096
                                + (byte c2 mod 64) * 64 + byte c3 mod 64, r3)))))"

function runes :: "string \<Rightarrow> nat list" where
  "runes [] = []"
| "runes (c # cs) = fst (decodeRune c cs) # runes (snd (decodeRune c cs))"
  by pat_completeness auto
termination
  by (relation "measure length") (auto simp: Let_def split: list.splits)

declare decodeRune.simps [simp del]
declare runes.simps [simp del]

subsection \<open>simpleStringHash\<close>

definition hash_step :: "int32 \<Rightarrow> nat \<Rightarrow> int32" where
  "hash_step hash c = hash * 31 + of_nat c"

definition simpleStringHash :: "string \<Rightarrow> int32" where
  "simpleStringHash s =
     (let hash = foldl hash_step 0 (runes s)
      in if hash <s 0 then - hash else hash)"

subsection \<open>Decimal rendering and parsing\<close>

text \<open>\<open>fmt.Sprintf("%d", v)\<close>: a minus sign for a negative value, then the digits.\<close>

definition digit_char :: "nat \<Rightarrow> char" where
  "digit_char d = char_of (48 + d)"

function show_nat :: "nat \<Rightarrow> string" where
  "show_nat n = (if n < 10 then [digit_char n] else show_nat (n div 10) @ [digit_char (n mod 10)])"
  by pat_completeness auto
termination
  by (relation "measure id") auto

declare show_nat.simps [simp del]

definition show_int :: "int \<Rightarrow> string" where
  "show_int i = (if i < 0 then CHR ''-'' # show_nat (nat (- i)) else show_nat (nat i))"

text \<open>
  \<open>strconv.ParseInt(s, 10, bitSize)\<close>: an optional sign, then one or more decimal
  digits and nothing else; the value must fit the signed \<open>bitSize\<close>-bit range. The
  model returns \<open>None\<close> exactly where Go returns a non-nil error (syntax or range).
\<close>

definition is_digit :: "char \<Rightarrow> bool" where
  "is_digit c = (48 \<le> byte c \<and> byte c \<le> 57)"

definition digit_val :: "char \<Rightarrow> nat" where
  "digit_val c = byte c - 48"

fun parse_digits :: "nat \<Rightarrow> string \<Rightarrow> nat option" where
  "parse_digits acc [] = Some acc"
| "parse_digits acc (c # cs) =
     (if is_digit c then parse_digits (acc * 10 + digit_val c) cs else None)"

definition ParseUint10 :: "string \<Rightarrow> nat option" where
  "ParseUint10 s = (if s = [] then None else parse_digits 0 s)"

definition ParseInt :: "string \<Rightarrow> nat \<Rightarrow> int option" where
  "ParseInt s bitSize =
     (case s of
        [] \<Rightarrow> None
      | c # cs \<Rightarrow>
          (let neg = (c = CHR ''-'');
               ds = (if c = CHR ''+'' \<or> c = CHR ''-'' then cs else s)
           in case ParseUint10 ds of
                None \<Rightarrow> None
              | Some un \<Rightarrow>
                  (let cutoff = 2 ^ (bitSize - 1) in
                   if \<not> neg \<and> un \<ge> cutoff then None
                   else if neg \<and> un > cutoff then None
                   else Some (if neg then - int un else int un))))"

subsection \<open>convertSecretToWASMValue\<close>

text \<open>
  The float branch calls \<open>strconv.ParseFloat\<close> and formats with \<open>%g\<close>; floating point
  is left out of the model, so the two together are the parameter \<open>fmtFloat\<close>
  (\<open>None\<close> where \<open>ParseFloat\<close> fails). Every statement below holds for each such
  function. A Go \<open>error\<close> is modelled by its message; \<open>Inl\<close> carries it.
\<close>

definition convertSecretToWASMValue ::
  "(string \<Rightarrow> string option) \<Rightarrow> string \<Rightarrow> string \<Rightarrow> string + string" where
  "convertSecretToWASMValue fmtFloat secret wasmType =
     (if wasmType = ''i32'' then
        (case ParseInt secret 32 of
           Some intVal \<Rightarrow> Inr (show_int intVal)
         | None \<Rightarrow> Inr (show_int (sint (simpleStringHash secret))))
      else if wasmType = ''i64'' then
        (case ParseInt secret 64 of
           Some intVal \<Rightarrow> Inr (show_int intVal)
         | None \<Rightarrow> Inr (show_int (sint (scast (simpleStringHash secret) :: int64))))
      else if wasmType = ''f32'' \<or> wasmType = ''f64'' then
        (case fmtFloat secret of
           Some text \<Rightarrow> Inr text
         | None \<Rightarrow> Inl (''cannot convert string secret to float type '' @ wasmType))
      else Inl (''unsupported WASM type: '' @ wasmType))"

section \<open>Strings\<close>

text \<open>\<open>strings.Contains\<close>\<close>

fun Contains :: "string \<Rightarrow> string \<Rightarrow> bool" where
  "Contains [] substr = (substr = [])"
| "Contains (c # cs) substr = (prefix substr (c # cs) \<or> Contains cs substr)"

section \<open>Template processor (enclave executor)\<close>

subsection \<open>The import pattern\<close>

text \<open>
  \<open>importPattern\<close> is the regular expression
  \<^verbatim>\<open>\(import\s+"[^"]*"\s+"([^"]+)"\s+\(global\s+\$([^\s\)]+)\s+(i32|i64|f32|f64)\)\)\<close>.
  The matcher below reads it left to right. Every repetition in it is followed by a
  character outside its class (a quote after \<open>[^"]*\<close>, a non-blank after
  \<open>\s+\<close>, a blank after \<open>[^\s\)]+\<close>), so the greedy match is the only
  one and no backtracking is needed. \<open>\s\<close> is tab, newline, form feed, carriage return and
  space. All delimiters are ASCII, so matching bytes and matching code points agree.
\<close>

definition is_space :: "char \<Rightarrow> bool" where
  "is_space c = (c = CHR 0x09 \<or> c = CHR 0x0A \<or> c = CHR 0x0C \<or> c = CHR 0x0D \<or> c = CHR 0x20)"

definition dquote :: char where
  "dquote = CHR 0x22"

definition is_ident_char :: "char \<Rightarrow> bool" where
  "is_ident_char c = (\<not> is_space c \<and> c \<noteq> CHR '')'')"

text \<open>A literal piece of the pattern.\<close>

definition lit :: "string \<Rightarrow> string \<Rightarrow> string option" where
  "lit p s = (if prefix p s then Some (drop (length p) s) else None)"

text \<open>\<open>\s+\<close>\<close>

definition spaces1 :: "string \<Rightarrow> string option" where
  "spaces1 s =
     (case s of
        [] \<Rightarrow> None
      | c # cs \<Rightarrow> if is_space c then Some (dropWhile is_space cs) else None)"

text \<open>\<open>[^"]*"\<close>: the text up to the next quote, and what follows that quote.\<close>

definition upto_quote :: "string \<Rightarrow> (string \<times> string) option" where
  "upto_quote s =
     (case dropWhile (\<lambda>c. c \<noteq> dquote) s of
        [] \<Rightarrow> None
      | q # rest \<Rightarrow> Some (takeWhile (\<lambda>c. c \<noteq> dquote) s, rest))"

text \<open>\<open>([^\s\)]+)\<close>\<close>

definition ident1 :: "string \<Rightarrow> (string \<times> string) option" where
  "ident1 s =
     (if takeWhile is_ident_char s = [] then None
      else Some (takeWhile is_ident_char s, dropWhile is_ident_char s))"

text \<open>\<open>(i32|i64|f32|f64)\<close>\<close>

definition wasm_kind :: "string \<Rightarrow> (string \<times> string) option" where
  "wasm_kind s =
     (if prefix ''i32'' s then Some (''i32'', drop 3 s)
      else if prefix ''i64'' s then Some (''i64'', drop 3 s)
      else if prefix ''f32'' s then Some (''f32'', drop 3 s)
      else if prefix ''f64'' s then Some (''f64'', drop 3 s)
      else None)"

text \<open>
  One match: \<open>match[0]\<close> to \<open>match[3]\<close> of the source, under the names the source
  gives them.
\<close>

record submatch =
  fullImport :: string
  secretName :: string
  globalName :: string
  wasmType :: string

text \<open>The pattern at the start of \<open>s\<close>: the match and the text after it.\<close>

definition match_here :: "string \<Rightarrow> (submatch \<times> string) option" where
  "match_here s = do {
     s1 \<leftarrow> lit ''(import'' s;
     s2 \<leftarrow> spaces1 s1;
     s3 \<leftarrow> lit [dquote] s2;
     (modname, s4) \<leftarrow> upto_quote s3;
     s5 \<leftarrow> spaces1 s4;
     s6 \<leftarrow> lit [dquote] s5;
     (name, s7) \<leftarrow> upto_quote s6;
     s8 \<leftarrow> (if name = [] then None else spaces1 s7);
     s9 \<leftarrow> lit ''(global'' s8;
     s10 \<leftarrow> spaces1 s9;
     s11 \<leftarrow> lit ''$'' s10;
     (ident, s12) \<leftarrow> ident1 s11;
     s13 \<leftarrow> spaces1 s12;
     (kind, s14) \<leftarrow> wasm_kind s13;
     s15 \<leftarrow> lit ''))'' s14;
     Some (\<lparr>fullImport = take (length s - length s15) s, secretName = name,
             globalName = ident, wasmType = kind\<rparr>, s15)
   }"

lemma lit_length: "lit p s = Some r \<Longrightarrow> length r \<le> length s"
  by (auto simp: lit_def split: if_splits)

lemma lit_length_less: "lit (c # p) s = Some r \<Longrightarrow> length r < length s"
  by (auto simp: lit_def prefix_def split: if_splits)

lemma spaces1_length: "spaces1 s = Some r \<Longrightarrow> length r < length s"
  by (auto simp: spaces1_def less_Suc_eq_le length_dropWhile_le split: list.splits if_splits)

lemma upto_quote_length: "upto_quote s = Some (a, r) \<Longrightarrow> length r < length s"
proof -
  assume "upto_quote s = Some (a, r)"
  then obtain q where "dropWhile (\<lambda>c. c \<noteq> dquote) s = q # r"
    by (auto simp: upto_quote_def split: list.splits)
  moreover have "length (dropWhile (\<lambda>c. c \<noteq> dquote) s) \<le> length s"
    by (rule length_dropWhile_le)
  ultimately show ?thesis by simp
qed

lemma ident1_length: "ident1 s = Some (a, r) \<Longrightarrow> length r \<le> length s"
  by (auto simp: ident1_def length_dropWhile_le split: if_splits)

lemma wasm_kind_length: "wasm_kind s = Some (a, r) \<Longrightarrow> length r \<le> length s"
  by (auto simp: wasm_kind_def split: if_splits)

lemma match_here_length: "match_here s = Some (m, rest) \<Longrightarrow> length rest < length s"
  by (auto simp: match_here_def bind_eq_Some_conv split: if_splits
      dest!: spaces1_length upto_quote_length ident1_length wasm_kind_length lit_length)

subsection \<open>FindAllStringSubmatch\<close>

text \<open>
  All matches, leftmost first and not overlapping: where the pattern matches, the match
  is recorded and the search goes on after it; elsewhere it moves on by one character.
\<close>

function FindAllStringSubmatch :: "string \<Rightarrow> submatch list" where
  "FindAllStringSubmatch s =
     (case match_here s of
        Some (m, rest) \<Rightarrow> m # FindAllStringSubmatch rest
      | None \<Rightarrow> (case s of [] \<Rightarrow> [] | c # cs \<Rightarrow> FindAllStringSubmatch cs))"
  by pat_completeness auto
termination
  by (relation "measure length") (auto dest: match_here_length)

declare FindAllStringSubmatch.simps [simp del]

subsection \<open>strings.Replace with a count of one\<close>

text \<open>
  \<open>strings.Replace(s, old, new, 1)\<close>: the first occurrence of \<open>old\<close> in \<open>s\<close>
  becomes \<open>new\<close>; \<open>s\<close> is returned as it is when \<open>old\<close> does not occur. (An empty
  \<open>old\<close> occurs at the very start.)
\<close>

fun Replace1 :: "string \<Rightarrow> string \<Rightarrow> string \<Rightarrow> string" where
  "Replace1 [] old new = (if old = [] then new else [])"
| "Replace1 (c # cs) old new =
     (if prefix old (c # cs) then new @ drop (length old) (c # cs)
      else c # Replace1 cs old new)"

subsection \<open>injectSecretsIntoWAT\<close>

type_synonym error = string

definition globalDef :: "string \<Rightarrow> string \<Rightarrow> string \<Rightarrow> string" where
  "globalDef gname kind wasmValue =
     ''(global $'' @ gname @ '' '' @ kind @ '' ('' @ kind @ ''.const '' @ wasmValue @ ''))''"

text \<open>The loop over the matches, with \<open>result\<close> as the loop's variable.\<close>

fun inject_matches ::
  "(string \<Rightarrow> string option) \<Rightarrow> (string \<rightharpoonup> string) \<Rightarrow> submatch list \<Rightarrow> string \<Rightarrow> error + string" where
  "inject_matches fmtFloat secrets [] result = Inr result"
| "inject_matches fmtFloat secrets (m # ms) result =
     (case secrets (secretName m) of
        Some secretValue \<Rightarrow>
          (case convertSecretToWASMValue fmtFloat secretValue (wasmType m) of
             Inl err \<Rightarrow> Inl (''failed to convert secret '' @ secretName m @ '': '' @ err)
           | Inr wasmValue \<Rightarrow>
               inject_matches fmtFloat secrets ms
                 (Replace1 result (fullImport m) (globalDef (globalName m) (wasmType m) wasmValue)))
      | None \<Rightarrow> inject_matches fmtFloat secrets ms result)"

definition injectSecretsIntoWAT ::
  "(string \<Rightarrow> string option) \<Rightarrow> string \<Rightarrow> (string \<rightharpoonup> string) \<Rightarrow> error + string" where
  "injectSecretsIntoWAT fmtFloat watCode secrets =
     inject_matches fmtFloat secrets (FindAllStringSubmatch watCode) watCode"

subsection \<open>The template processor in the words of its contract\<close>

text \<open>
  The contract reads the source as a sequence of placeholder declarations with plain
  text between them, and rewrites each declaration where it stands. \<open>segments\<close> is
  that reading: it cuts the source, left to right, into the declarations the pattern
  finds and the single characters between them. \<open>rendered\<close> is what the contract puts
  in the output for a segment: a declaration whose name has a secret becomes the
  inline global definition with the coerced literal, and everything else stays.
  These definitions follow the contract; \<open>injectSecretsIntoWAT\<close> above follows the
  source. The properties below compare the two.
\<close>

datatype segment = Plain char | Declaration submatch

function segments :: "string \<Rightarrow> segment list" where
  "segments s =
     (case match_here s of
        Some (m, rest) \<Rightarrow> Declaration m # segments rest
      | None \<Rightarrow> (case s of [] \<Rightarrow> [] | c # cs \<Rightarrow> Plain c # segments cs))"
  by pat_completeness auto
termination
  by (relation "measure length") (auto dest: match_here_length)

declare segments.simps [simp del]

fun original :: "segment \<Rightarrow> string" where
  "original (Plain c) = [c]"
| "original (Declaration m) = fullImport m"

fun rendered :: "(string \<Rightarrow> string option) \<Rightarrow> (string \<rightharpoonup> string) \<Rightarrow> segment \<Rightarrow> string" where
  "rendered fmtFloat secrets (Plain c) = [c]"
| "rendered fmtFloat secrets (Declaration m) =
     (case secrets (secretName m) of
        None \<Rightarrow> fullImport m
      | Some secretValue \<Rightarrow>
          (case convertSecretToWASMValue fmtFloat secretValue (wasmType m) of
             Inr wasmValue \<Rightarrow> globalDef (globalName m) (wasmType m) wasmValue
           | Inl err \<Rightarrow> fullImport m))"

text \<open>A segment the contract leaves alone: plain text, or a declaration with no secret.\<close>

fun kept :: "(string \<rightharpoonup> string) \<Rightarrow> segment \<Rightarrow> bool" where
  "kept secrets (Plain c) = True"
| "kept secrets (Declaration m) = (secrets (secretName m) = None)"

text \<open>
  A source in which the text \<open>(import\<close> occurs only where a placeholder declaration
  starts: not in the text between the declarations (so the module has no other
  imports), and not inside a declaration after its first character.
\<close>

function only_placeholder_imports :: "string \<Rightarrow> bool" where
  "only_placeholder_imports s =
     (case match_here s of
        Some (m, rest) \<Rightarrow>
          \<not> Contains (tl (fullImport m)) ''(import'' \<and> only_placeholder_imports rest
      | None \<Rightarrow>
          (case s of
             [] \<Rightarrow> True
           | c # cs \<Rightarrow> \<not> prefix ''(import'' s \<and> only_placeholder_imports cs))"
  by pat_completeness auto
termination
  by (relation "measure length") (auto dest: match_here_length)

declare only_placeholder_imports.simps [simp del]

text \<open>
  The parts of a declaration: its module string, its name, the global_ident and the kind
  of its global, and its five runs of blanks.
\<close>

record placeholder =
  blanks1 :: string
  module_string :: string
  blanks2 :: string
  name_string :: string
  blanks3 :: string
  blanks4 :: string
  global_ident :: string
  blanks5 :: string
  numeric_kind :: string

definition declaration_text :: "placeholder \<Rightarrow> string" where
  "declaration_text d =
     ''(import'' @ blanks1 d @ [dquote] @ module_string d @ [dquote] @ blanks2 d @ [dquote]
       @ name_string d @ [dquote] @ blanks3 d @ ''(global'' @ blanks4 d @ ''$'' @ global_ident d
       @ blanks5 d @ numeric_kind d @ ''))''"

definition blanks :: "string \<Rightarrow> bool" where
  "blanks w = (w \<noteq> [] \<and> list_all is_space w)"

definition declaration_parts :: "placeholder \<Rightarrow> bool" where
  "declaration_parts d =
     (blanks (blanks1 d) \<and> blanks (blanks2 d) \<and> blanks (blanks3 d) \<and> blanks (blanks4 d) \<and>
      blanks (blanks5 d) \<and>
      dquote \<notin> set (module_string d) \<and> name_string d \<noteq> [] \<and> dquote \<notin> set (name_string d) \<and>
      global_ident d \<noteq> [] \<and> list_all is_ident_char (global_ident d) \<and>
      numeric_kind d \<in> {''i32'', ''i64'', ''f32'', ''f64''})"

text \<open>No occurrence of \<open>(import\<close> starts inside \<open>t\<close> when \<open>x\<close> follows it.\<close>

definition import_free :: "string \<Rightarrow> string \<Rightarrow> bool" where
  "import_free t x = (\<forall>k < length t. \<not> prefix ''(import'' (drop k (t @ x)))"

text \<open>
  In the text \<open>out @ src\<close>, every \<open>(import\<close> that starts inside \<open>out\<close> starts a
  declaration that lies inside \<open>out\<close> and has no secret.
\<close>

definition settled :: "(string \<rightharpoonup> string) \<Rightarrow> string \<Rightarrow> string \<Rightarrow> bool" where
  "settled secrets out src =
     (\<forall>k < length out. prefix ''(import'' (drop k (out @ src)) \<longrightarrow>
        (\<exists>m r. match_here (drop k out) = Some (m, r) \<and> secrets (secretName m) = None))"

text \<open>
  What the pattern finds in the output: a segment that was kept is found as it was, and
  a replaced declaration is plain text.
\<close>

fun output_segments ::
  "(string \<Rightarrow> string option) \<Rightarrow> (string \<rightharpoonup> string) \<Rightarrow> segment \<Rightarrow> segment list" where
  "output_segments fmtFloat secrets seg =
     (if kept secrets seg then [seg] else map Plain (rendered fmtFloat secrets seg))"

text \<open>
  Sources for concrete runs: a template with two placeholders, a template with a float
  placeholder, and two sources in which the text of one declaration also occurs inside
  an earlier one.
\<close>

definition template_source :: string where
  \<open>template_source =
     ''(module (import "env" "K" (global $K i32)) (func) (import "env" "L" (global $L i64)))''\<close>

definition float_source :: string where
  \<open>float_source = ''(module (import "env" "RATE" (global $RATE f32)))''\<close>

definition overlap_source :: string where
  \<open>overlap_source =
     ''(import "x(import " " " (global $id i32)) junk" (global $z i32)) (import " " " (global $id i32)) junk" (global $z i32))''\<close>

definition overlap_module :: string where
  \<open>overlap_module =
     ''(module (import "m(import " "  " (global $a i64)) tail" (global $b i64)) (import " "  " (global $a i64)) tail" (global $b i64)))''\<close>


section \<open>Binary input (enclave executor)\<close>

definition isWATText :: "string \<Rightarrow> bool" where
  "isWATText input =
     (case input of
        [] \<Rightarrow> False
      | c # cs \<Rightarrow> c = CHR ''('' \<and> (Contains input ''module'' \<or> Contains input ''func''))"

text \<open>\<open>strings.ReplaceAll(s, old, new)\<close> for an \<open>old\<close> of one byte.\<close>

definition ReplaceAll_byte :: "string \<Rightarrow> char \<Rightarrow> string \<Rightarrow> string" where
  "ReplaceAll_byte s old new = concat (map (\<lambda>c. if c = old then new else [c]) s)"

text \<open>
  \<open>strconv.ParseUint(s, 16, bitSize)\<close>: one or more hexadecimal digits of either case
  and nothing else, with a value below \<open>2 ^ bitSize\<close>; \<open>None\<close> where Go returns an
  error.
\<close>

definition hex_digit :: "char \<Rightarrow> nat option" where
  "hex_digit c =
     (let b = byte c in
      if 48 \<le> b \<and> b \<le> 57 then Some (b - 48)
      else if 97 \<le> b \<and> b \<le> 102 then Some (b - 97 + 10)
      else if 65 \<le> b \<and> b \<le> 70 then Some (b - 65 + 10)
      else None)"

fun parse_hex :: "nat \<Rightarrow> string \<Rightarrow> nat option" where
  "parse_hex acc [] = Some acc"
| "parse_hex acc (c # cs) =
     (case hex_digit c of None \<Rightarrow> None | Some d \<Rightarrow> parse_hex (acc * 16 + d) cs)"

definition ParseUint16 :: "string \<Rightarrow> nat \<Rightarrow> nat option" where
  "ParseUint16 s bitSize =
     (if s = [] then None
      else case parse_hex 0 s of
             None \<Rightarrow> None
           | Some v \<Rightarrow> if v < 2 ^ bitSize then Some v else None)"

text \<open>
  The hexadecimal loop of \<open>base64DecodeWASM\<close>, entered only for a string of even
  length: two characters at a time, \<open>None\<close> at the first pair that does not parse.
  A \<open>[]byte\<close> is modelled as a \<open>string\<close>, the list of its bytes.
\<close>

fun hex_loop :: "string \<Rightarrow> string option" where
  "hex_loop (c1 # c2 # cs) =
     (case ParseUint16 [c1, c2] 8 of
        None \<Rightarrow> None
      | Some b \<Rightarrow> (case hex_loop cs of None \<Rightarrow> None | Some hexDecoded \<Rightarrow> Some (char_of b # hexDecoded)))"
| "hex_loop cs = Some []"

text \<open>
  \<open>base64.StdEncoding.DecodeString\<close> is the parameter \<open>DecodeString\<close>: \<open>Inl\<close> its
  error, \<open>Inr\<close> the decoded bytes.
\<close>

definition base64DecodeWASM :: "(string \<Rightarrow> error + string) \<Rightarrow> string \<Rightarrow> error + string" where
  "base64DecodeWASM DecodeString encoded =
     (let cleaned = ReplaceAll_byte encoded (CHR 0x20) [];
          cleaned = ReplaceAll_byte cleaned (CHR 0x0A) [];
          cleaned = ReplaceAll_byte cleaned (CHR 0x09) []
      in case DecodeString cleaned of
           Inr decoded \<Rightarrow> Inr decoded
         | Inl err \<Rightarrow>
             if length cleaned mod 2 = 0 then
               (case hex_loop cleaned of
                  None \<Rightarrow> Inl err
                | Some hexDecoded \<Rightarrow> Inr hexDecoded)
             else Inl err)"

section \<open>Compile bridge (enclave executor)\<close>

text \<open>
  The file system is a map from paths to contents. What the operating system and the
  external compiler decide is a parameter: whether \<open>ioutil.WriteFile\<close> fails, and what
  running \<open>wat2wasm\<close> does to the file system and whether it fails (with its error and
  its combined output). \<open>os.Remove\<close> deletes the path; its error is dropped by the source.
  A failed \<open>WriteFile\<close> is taken to leave the file system as it was. Each call also
  appends the system calls it makes to a trace, so that the paths it uses can be
  stated.
\<close>

type_synonym filesystem = "string \<rightharpoonup> string"

datatype syscall =
  SysWriteFile string string
  | SysExec string "string list"
  | SysReadFile string
  | SysRemove string

record toolchain =
  WriteFile_error :: "string \<Rightarrow> error option"
  wat2wasm :: "filesystem \<Rightarrow> string \<Rightarrow> string \<Rightarrow> filesystem \<times> (error \<times> string) option"

definition compileWATToWASM ::
  "toolchain \<Rightarrow> filesystem \<Rightarrow> string \<Rightarrow> (error + string) \<times> filesystem \<times> syscall list" where
  "compileWATToWASM tc fs watCode =
     (let tmpDir = ''/tmp'';
          watFile = tmpDir @ ''/temp.wat'';
          wasmFile = tmpDir @ ''/temp.wasm'';
          written = [SysWriteFile watFile watCode];
          compiled = written @ [SysExec ''wat2wasm'' [watFile, ''-o'', wasmFile]]
      in case WriteFile_error tc watFile of
           Some err \<Rightarrow> (Inl (''failed to write WAT file: '' @ err), fs, written)
         | None \<Rightarrow>
             (case wat2wasm tc (fs(watFile \<mapsto> watCode)) watFile wasmFile of
                (fs2, Some (err, output)) \<Rightarrow>
                  (Inl (''wat2wasm compilation failed: '' @ err @ '', output: '' @ output),
                   fs2(watFile := None),
                   compiled @ [SysRemove watFile])
              | (fs2, None) \<Rightarrow>
                  (case fs2 wasmFile of
                     None \<Rightarrow>
                       (Inl (''failed to read compiled WASM file: open '' @ wasmFile
                               @ '': no such file or directory''),
                        fs2(wasmFile := None, watFile := None),
                        compiled @ [SysReadFile wasmFile, SysRemove wasmFile, SysRemove watFile])
                   | Some wasmBytes \<Rightarrow>
                       (Inr wasmBytes,
                        fs2(wasmFile := None, watFile := None),
                        compiled @ [SysReadFile wasmFile, SysRemove wasmFile, SysRemove watFile]))))"

text \<open>The paths a system call names (the options of a command are not paths).\<close>

fun syscall_paths :: "syscall \<Rightarrow> string set" where
  "syscall_paths (SysWriteFile path contents) = {path}"
| "syscall_paths (SysExec command arguments) = {a \<in> set arguments. \<not> prefix ''-'' a}"
| "syscall_paths (SysReadFile path) = {path}"
| "syscall_paths (SysRemove path) = {path}"

definition paths_used :: "syscall list \<Rightarrow> string set" where
  "paths_used calls = (\<Union>c \<in> set calls. syscall_paths c)"

text \<open>A toolchain for concrete runs: every write succeeds and the compiler writes two bytes.\<close>

definition demo_toolchain :: toolchain where
  "demo_toolchain =
     \<lparr>WriteFile_error = (\<lambda>path. None),
      wat2wasm = (\<lambda>fs input output. (fs(output \<mapsto> ''OK''), None))\<rparr>"

section \<open>Execution (enclave executor)\<close>

text \<open>
  The WebAssembly runtime is a parameter: creating a module from bytes, instantiating
  it with no imports, looking an export up (\<open>None\<close> for \<open>nil\<close>; an export that is no
  function has a \<open>nil\<close> \<open>Func()\<close>), and calling a function, whose result is an
  \<open>int32\<close> or a value of another dynamic type (with that type's name).

  The executor uses the default engine, with no fuel, epoch interruption or deadline,
  and nothing in it recovers from a panic. Instantiating runs the module's start
  function and a call runs the exported function, and either may never return to the
  caller: \<open>NewInstance\<close> and \<open>Call\<close> give \<open>None\<close> then, and otherwise Go's pair as
  \<open>Inl\<close> the error (a trap, say) or \<open>Inr\<close> the value.
\<close>

datatype 'f extern = ExternFunc 'f | ExternOther

datatype go_value = Int32Value int32 | OtherValue string

record ('m, 'i, 'f) wasmtime =
  NewModule :: "string \<Rightarrow> error + 'm"
  NewInstance :: "'m \<Rightarrow> (error + 'i) option"
  GetExport :: "'i \<Rightarrow> string \<Rightarrow> 'f extern option"
  Call :: "'f \<Rightarrow> int32 list \<Rightarrow> (error + go_value) option"

record ('m, 'i, 'f) externals =
  FormatFloat :: "string \<Rightarrow> string option"
  DecodeString :: "string \<Rightarrow> error + string"
  tools :: toolchain
  engine :: "('m, 'i, 'f) wasmtime"

definition squote :: string where
  "squote = [CHR 0x27]"

text \<open>The first half of \<open>ExecuteWASM\<close>: from the request's code to the module's bytes.\<close>

definition module_bytes ::
  "('m, 'i, 'f) externals \<Rightarrow> filesystem \<Rightarrow> string \<Rightarrow> (string \<rightharpoonup> string)
     \<Rightarrow> (error + string) \<times> filesystem" where
  "module_bytes ext fs wasmCode secrets =
     (if isWATText wasmCode then
        (case (if dom secrets \<noteq> {} then injectSecretsIntoWAT (FormatFloat ext) wasmCode secrets
               else Inr wasmCode) of
           Inl err \<Rightarrow> (Inl (''failed to inject secrets: '' @ err), fs)
         | Inr processedWAT \<Rightarrow>
             (case compileWATToWASM (tools ext) fs processedWAT of
                (Inl compileErr, fs1, calls) \<Rightarrow>
                  (Inl (''failed to compile WAT to WASM: '' @ compileErr), fs1)
              | (Inr wasmBytes, fs1, calls) \<Rightarrow> (Inr wasmBytes, fs1)))
      else
        (case base64DecodeWASM (DecodeString ext) wasmCode of
           Inl decodeErr \<Rightarrow> (Inl (''failed to decode WASM bytecode: '' @ decodeErr), fs)
         | Inr wasmBytes \<Rightarrow> (Inr wasmBytes, fs)))"

text \<open>
  The second half: module, instance, export, call, result. The value is Go's pair of
  an \<open>int32\<close> and an \<open>error\<close> (\<open>None\<close> for \<open>nil\<close>) when the function returns, and
  \<open>None\<close> when it does not.
\<close>

definition run_module ::
  "('m, 'i, 'f) wasmtime \<Rightarrow> string \<Rightarrow> string \<Rightarrow> int32 list
     \<Rightarrow> (int32 \<times> error option) option" where
  "run_module eng wasmBytes functionName args =
     (case NewModule eng wasmBytes of
        Inl err \<Rightarrow> Some (0, Some (''failed to create WASM module: '' @ err))
      | Inr module \<Rightarrow>
          (case NewInstance eng module of
             None \<Rightarrow> None
           | Some (Inl err) \<Rightarrow> Some (0, Some (''failed to create WASM instance: '' @ err))
           | Some (Inr instance) \<Rightarrow>
               (case GetExport eng instance functionName of
                  None \<Rightarrow>
                    Some (0, Some (''function '' @ squote @ functionName @ squote
                                    @ '' not found in WASM module''))
                | Some ExternOther \<Rightarrow>
                    Some (0, Some (squote @ functionName @ squote @ '' is not a function''))
                | Some (ExternFunc wasmFunc) \<Rightarrow>
                    (case Call eng wasmFunc args of
                       None \<Rightarrow> None
                     | Some (Inl err) \<Rightarrow> Some (0, Some (''WASM function call failed: '' @ err))
                     | Some (Inr (Int32Value resultVal)) \<Rightarrow> Some (resultVal, None)
                     | Some (Inr (OtherValue typeName)) \<Rightarrow>
                         Some (0, Some (''unexpected return type from WASM function: ''
                                          @ typeName))))))"

text \<open>
  \<open>ExecuteWASM\<close> returns what the second half returns, or the error of the first
  half, and the file system as the call leaves it.
\<close>

definition ExecuteWASM ::
  "('m, 'i, 'f) externals \<Rightarrow> filesystem \<Rightarrow> string \<Rightarrow> string \<Rightarrow> int32 list
     \<Rightarrow> (string \<rightharpoonup> string) \<Rightarrow> (int32 \<times> error option) option \<times> filesystem" where
  "ExecuteWASM ext fs wasmCode functionName args secrets =
     (case module_bytes ext fs wasmCode secrets of
        (Inl err, fs1) \<Rightarrow> (Some (0, Some err), fs1)
      | (Inr wasmBytes, fs1) \<Rightarrow> (run_module (engine ext) wasmBytes functionName args, fs1))"

subsection \<open>The connection loop\<close>

record WASMRequest =
  WASMCode :: string
  FunctionName :: string
  Args :: "int32 list"
  Secrets :: "string \<rightharpoonup> string"

record WASMResponse =
  Result :: int32
  Error :: string

definition make_response :: "int32 \<times> error option \<Rightarrow> WASMResponse" where
  "make_response outcome =
     (case outcome of
        (result, None) \<Rightarrow> \<lparr>Result = result, Error = []\<rparr>
      | (result, Some err) \<Rightarrow> \<lparr>Result = result, Error = ''WASM execution failed: '' @ err\<rparr>)"

text \<open>
  \<open>handleConnection\<close> of the executor. The connection is the list of requests that
  \<open>Decode\<close> will deliver before it fails (end of stream or a malformed message), and
  the number \<open>writable\<close> of \<open>Encode\<close> calls that succeed before one fails. The loop
  returns, in order, every request it decoded with what became of it:
  \<^item> \<open>Encoded\<close>: the response was written and the loop went on;
  \<^item> \<open>EncodeFails\<close>: the response was passed to \<open>Encode\<close>, which failed, and the
    loop returned;
  \<^item> \<open>NoResponse\<close>: \<open>ExecuteWASM\<close> did not return, so that nothing was written and
    nothing more is decoded on this connection.
\<close>

datatype reply = Encoded WASMResponse | EncodeFails WASMResponse | NoResponse


fun written :: "reply \<Rightarrow> bool" where
  "written (Encoded response) = True"
| "written r = False"



subsection \<open>What a request is owed\<close>





text \<open>
  A runtime for concrete runs: a module exports the function \<open>square\<close> and a memory
  \<open>memory\<close>, and every call returns; base64 decoding always fails.
\<close>

definition demo_engine :: "(string, string, string) wasmtime" where
  "demo_engine =
     \<lparr>NewModule = (\<lambda>wasmBytes. Inr wasmBytes),
      NewInstance = (\<lambda>module. Some (Inr module)),
      GetExport = (\<lambda>instance name.
         if name = ''square'' then Some (ExternFunc ''square'')
         else if name = ''memory'' then Some ExternOther
         else None),
      Call = (\<lambda>f args.
         case args of
           [x] \<Rightarrow> Some (Inr (Int32Value (x * x)))
         | _ \<Rightarrow> Some (Inl ''wrong number of arguments''))\<rparr>"

definition demo_externals :: "(string, string, string) externals" where
  "demo_externals =
     \<lparr>FormatFloat = (\<lambda>secret. None),
      DecodeString = (\<lambda>s. Inl ''illegal base64 data''),
      tools = demo_toolchain,
      engine = demo_engine\<rparr>"

definition demo_request :: "string \<Rightarrow> int32 list \<Rightarrow> WASMRequest" where
  "demo_request name args =
     \<lparr>WASMCode = ''(module)'', FunctionName = name, Args = args, Secrets = Map.empty\<rparr>"






section \<open>Relay (host)\<close>

subsection \<open>The enclave channel\<close>

text \<open>
  \<open>HostService\<close> holds the connection to the enclave (\<open>None\<close> for \<open>nil\<close>) and the
  flag \<open>enclaveConnected\<close>; a connection is named by a number. What the network does
  is a parameter of each operation: the outcome of \<open>vsock.Dial\<close>, and what happens to
  one request on the channel (\<open>Encode\<close> fails, \<open>Decode\<close> fails, or a response is
  decoded).
\<close>

type_synonym conn = nat

record HostService =
  enclaveConn :: "conn option"
  enclaveConnected :: bool

definition NewHostService :: HostService where
  "NewHostService = \<lparr>enclaveConn = None, enclaveConnected = False\<rparr>"

definition connectToEnclave :: "HostService \<Rightarrow> error + conn \<Rightarrow> error option \<times> HostService" where
  "connectToEnclave h dial =
     (if enclaveConnected h then (None, h)
      else case dial of
             Inl err \<Rightarrow> (Some (''failed to connect to enclave: '' @ err), h)
           | Inr c \<Rightarrow> (None, h\<lparr>enclaveConn := Some c, enclaveConnected := True\<rparr>))"

datatype exchange = SendFails error | ReceiveFails error | Replies WASMResponse

definition forwardToEnclave ::
  "HostService \<Rightarrow> exchange \<Rightarrow> WASMRequest \<Rightarrow> (error + WASMResponse) \<times> HostService" where
  "forwardToEnclave h channel req =
     (if \<not> enclaveConnected h \<or> enclaveConn h = None then (Inl ''not connected to enclave'', h)
      else case channel of
             SendFails err \<Rightarrow> (Inl (''failed to send request to enclave: '' @ err), h)
           | ReceiveFails err \<Rightarrow>
               (Inl (''failed to decode WASM response from enclave: '' @ err), h)
           | Replies response \<Rightarrow> (Inr response, h))"

subsection \<open>One request of a client connection\<close>

text \<open>
  The body of the loop of \<open>handleClientConnection\<close> for one decoded request: the
  response encoded to the client, the service afterwards, and what was done towards
  the enclave (a dial, the use of a connection for the exchange).
\<close>

datatype net_action = Dialed | UsedChannel conn

definition serve_request ::
  "HostService \<Rightarrow> error + conn \<Rightarrow> exchange \<Rightarrow> WASMRequest
     \<Rightarrow> WASMResponse \<times> HostService \<times> net_action list" where
  "serve_request h dial channel req =
     (case (if \<not> enclaveConnected h
            then (case connectToEnclave h dial of (failure, h1) \<Rightarrow> (failure, h1, [Dialed]))
            else (None, h, [])) of
        (Some err, h1, done) \<Rightarrow>
          (\<lparr>Result = 0, Error = ''Could not connect to enclave: '' @ err\<rparr>, h1, done)
      | (None, h1, done) \<Rightarrow>
          (let used = (case enclaveConn h1 of
                         Some c \<Rightarrow> if enclaveConnected h1 then [UsedChannel c] else []
                       | None \<Rightarrow> [])
           in case forwardToEnclave h1 channel req of
                (Inl err, h2) \<Rightarrow>
                  (\<lparr>Result = 0, Error = ''Enclave communication error: '' @ err\<rparr>, h2, done @ used)
              | (Inr wasmResp, h2) \<Rightarrow> (wasmResp, h2, done @ used)))"

subsection \<open>Client tasks sharing the channel\<close>

text \<open>
  Every client connection is served by a task of its own, and all of them forward over
  the one enclave connection. \<open>forwardToEnclave\<close> takes the read side of
  \<open>sync.RWMutex\<close>, which any number of tasks may hold together; only
  \<open>connectToEnclave\<close> takes the write side. The model below runs the tasks under a
  schedule, one atomic step at a time:
  \<^item> a task takes the read lock (possible unless a writer holds the lock);
  \<^item> a task holding it encodes its request onto the channel;
  \<^item> the enclave, which serves the connection with one sequential loop, takes the
    oldest request off the channel and puts its response on it;
  \<^item> a task that has sent decodes the oldest response on the channel and releases
    the lock.
  Messages are taken to be atomic (a whole request or response is written and read at
  once), which favours the code: only their order is at stake.
\<close>

datatype task =
  Waiting WASMRequest
  | Locked WASMRequest
  | Sent WASMRequest
  | Finished WASMRequest WASMResponse

record relay_state =
  readers :: nat
  writer :: bool
  to_enclave :: "WASMRequest list"
  from_enclave :: "WASMResponse list"
  tasks :: "task list"

datatype action = Task nat | Enclave

definition relay_start :: "WASMRequest list \<Rightarrow> relay_state" where
  "relay_start reqs =
     \<lparr>readers = 0, writer = False, to_enclave = [], from_enclave = [], tasks = map Waiting reqs\<rparr>"

text \<open>One step; \<open>None\<close> when the action cannot run in this state (it would block).\<close>

definition relay_step ::
  "(WASMRequest \<Rightarrow> WASMResponse) \<Rightarrow> action \<Rightarrow> relay_state \<Rightarrow> relay_state option" where
  "relay_step answer a s =
     (case a of
        Enclave \<Rightarrow>
          (case to_enclave s of
             [] \<Rightarrow> None
           | req # waiting \<Rightarrow>
               Some (s\<lparr>to_enclave := waiting, from_enclave := from_enclave s @ [answer req]\<rparr>))
      | Task i \<Rightarrow>
          (if i \<ge> length (tasks s) then None
           else case tasks s ! i of
                  Waiting req \<Rightarrow>
                    if writer s then None
                    else Some (s\<lparr>readers := Suc (readers s), tasks := (tasks s)[i := Locked req]\<rparr>)
                | Locked req \<Rightarrow>
                    Some (s\<lparr>to_enclave := to_enclave s @ [req], tasks := (tasks s)[i := Sent req]\<rparr>)
                | Sent req \<Rightarrow>
                    (case from_enclave s of
                       [] \<Rightarrow> None
                     | response # others \<Rightarrow>
                         Some (s\<lparr>readers := readers s - 1, from_enclave := others,
                                  tasks := (tasks s)[i := Finished req response]\<rparr>))
                | Finished req response \<Rightarrow> None))"

fun relay_run ::
  "(WASMRequest \<Rightarrow> WASMResponse) \<Rightarrow> action list \<Rightarrow> relay_state \<Rightarrow> relay_state option" where
  "relay_run answer [] s = Some s"
| "relay_run answer (a # schedule) s =
     (case relay_step answer a s of None \<Rightarrow> None | Some s' \<Rightarrow> relay_run answer schedule s')"

text \<open>
  The enclave's answer to a request, on the executor of the concrete runs, where every
  call returns.
\<close>

definition demo_answer :: "WASMRequest \<Rightarrow> WASMResponse" where
  "demo_answer req =
     make_response (the (fst (ExecuteWASM demo_externals Map.empty (WASMCode req)
                                (FunctionName req) (Args req) (Secrets req))))"
chapter \<open>Properties\<close>

section \<open>Value coercion: properties\<close>

subsection \<open>Parsing what was rendered\<close>

lemma byte_digit_char: "d < 10 \<Longrightarrow> byte (digit_char d) = 48 + d"
  by (simp add: byte_def digit_char_def)

lemma is_digit_digit_char: "d < 10 \<Longrightarrow> is_digit (digit_char d)"
  by (simp add: is_digit_def byte_digit_char)

lemma digit_val_digit_char: "d < 10 \<Longrightarrow> digit_val (digit_char d) = d"
  by (simp add: digit_val_def byte_digit_char)

lemma digit_char_not_sign: "d < 10 \<Longrightarrow> digit_char d \<noteq> CHR ''+'' \<and> digit_char d \<noteq> CHR ''-''"
proof -
  assume d: "d < 10"
  have "byte (CHR ''+'') = 43" "byte (CHR ''-'') = 45"
    by (simp_all add: byte_def)
  with byte_digit_char [OF d] show ?thesis
    by auto
qed

lemma parse_digits_append:
  "parse_digits acc (xs @ ys) =
     (case parse_digits acc xs of None \<Rightarrow> None | Some a \<Rightarrow> parse_digits a ys)"
  by (induction xs arbitrary: acc) auto

lemma show_nat_nonempty: "show_nat n \<noteq> []"
  by (subst show_nat.simps) simp

lemma parse_digits_show_nat: "parse_digits 0 (show_nat n) = Some n"
proof (induction n rule: show_nat.induct)
  case (1 n)
  show ?case
  proof (cases "n < 10")
    case True
    then show ?thesis
      by (subst show_nat.simps) (simp add: is_digit_digit_char digit_val_digit_char)
  next
    case False
    with 1 have ih: "parse_digits 0 (show_nat (n div 10)) = Some (n div 10)"
      by simp
    have "n mod 10 < 10" by simp
    then show ?thesis
      using False ih
      by (subst show_nat.simps)
         (simp add: parse_digits_append is_digit_digit_char digit_val_digit_char)
  qed
qed

lemma hd_show_nat_digit: "\<exists>d cs. d < 10 \<and> show_nat n = digit_char d # cs"
proof (induction n rule: show_nat.induct)
  case (1 n)
  show ?case
  proof (cases "n < 10")
    case True
    then show ?thesis by (subst show_nat.simps) auto
  next
    case False
    with 1 obtain d cs where "d < 10" "show_nat (n div 10) = digit_char d # cs"
      by auto
    with False show ?thesis by (subst show_nat.simps) auto
  qed
qed

lemma ParseUint10_show_nat: "ParseUint10 (show_nat n) = Some n"
  by (simp add: ParseUint10_def show_nat_nonempty parse_digits_show_nat)

lemma ParseInt_show_int:
  assumes "- (2 ^ (bits - 1)) \<le> n" "n < 2 ^ (bits - 1)"
  shows "ParseInt (show_int n) bits = Some n"
proof (cases "n < 0")
  case True
  have "nat (- n) \<le> 2 ^ (bits - 1)"
    using assms(1) True by (simp add: nat_le_iff)
  then show ?thesis
    using True by (simp add: ParseInt_def show_int_def ParseUint10_show_nat Let_def)
next
  case False
  obtain d cs where d: "d < 10" "show_nat (nat n) = digit_char d # cs"
    using hd_show_nat_digit by blast
  have sgn: "digit_char d \<noteq> CHR ''+''" "digit_char d \<noteq> CHR ''-''"
    using digit_char_not_sign [OF d(1)] by simp_all
  have "ParseUint10 (digit_char d # cs) = Some (nat n)"
    using ParseUint10_show_nat [of "nat n"] d(2) by simp
  moreover have "nat n < 2 ^ (bits - 1)"
    using assms(2) False by (simp add: nat_less_iff)
  ultimately show ?thesis
    using False d(2) sgn by (simp add: ParseInt_def show_int_def Let_def)
qed

lemma pow2_bounds:
  fixes x :: nat
  shows "- int x < 2 ^ k" and "- (2 ^ k) \<le> int x"
    and "\<not> 2 ^ k < x \<Longrightarrow> - (2 ^ k) \<le> - int x"
    and "\<not> 2 ^ k \<le> x \<Longrightarrow> int x < 2 ^ k"
proof -
  have pos: "(0::int) < 2 ^ k" by simp
  have nn: "0 \<le> int x" by simp
  show "- int x < 2 ^ k" using pos nn by linarith
  show "- (2 ^ k) \<le> int x" using pos nn by linarith
  show "- (2 ^ k) \<le> - int x" if "\<not> 2 ^ k < x"
  proof -
    from that have "x \<le> 2 ^ k" by simp
    then have "int x \<le> int (2 ^ k)" by (simp only: of_nat_le_iff)
    then show ?thesis by simp
  qed
  show "int x < 2 ^ k" if "\<not> 2 ^ k \<le> x"
  proof -
    from that have "x < 2 ^ k" by simp
    then have "int x < int (2 ^ k)" by (simp only: of_nat_less_iff)
    then show ?thesis by simp
  qed
qed

lemma ParseInt_range:
  "ParseInt s bits = Some n \<Longrightarrow> - (2 ^ (bits - 1)) \<le> n \<and> n < 2 ^ (bits - 1)"
  by (auto simp: ParseInt_def Let_def pow2_bounds split: list.splits option.splits if_splits)




subsection \<open>Evaluation rules for concrete inputs\<close>

lemma digit_char_simps:
  "digit_char 0 = CHR ''0''" "digit_char 1 = CHR ''1''" "digit_char 2 = CHR ''2''"
  "digit_char 3 = CHR ''3''" "digit_char 4 = CHR ''4''" "digit_char 5 = CHR ''5''"
  "digit_char 6 = CHR ''6''" "digit_char 7 = CHR ''7''" "digit_char 8 = CHR ''8''"
  "digit_char 9 = CHR ''9''" "digit_char (Suc 0) = CHR ''1''"
  by code_simp+

lemmas show_eval = show_int_def show_nat.simps digit_char_simps

lemmas parse_eval = ParseInt_def ParseUint10_def is_digit_def digit_val_def byte_def

lemmas runes_eval = runes.simps decodeRune.simps rune_size_def byte_def

subsection \<open>The hash fallback for \<open>i32\<close>\<close>

text \<open>
  A secret that is no 32-bit decimal integer becomes the decimal rendering of the hash:
  this half of the behaviour holds for every secret.
\<close>

lemma convert_i32_hash:
  "ParseInt secret 32 = None \<Longrightarrow>
   convertSecretToWASMValue fmtFloat secret ''i32'' = Inr (show_int (sint (simpleStringHash secret)))"
  by (simp add: convertSecretToWASMValue_def)

text \<open>
  The accumulator is negated once when it is negative, which leaves every value but one
  non-negative: the negation of \<open>-2147483648\<close> wraps around to itself.
\<close>

lemma simpleStringHash_nonneg:
  assumes "foldl hash_step 0 (runes s) \<noteq> - 2147483648"
  shows "0 \<le> sint (simpleStringHash s)"
proof -
  let ?h = "foldl hash_step 0 (runes s)"
  show ?thesis
  proof (cases "?h <s 0")
    case False
    then show ?thesis
      by (simp add: simpleStringHash_def Let_def word_sless_alt)
  next
    case True
    then have neg: "sint ?h < 0"
      by (simp add: word_sless_alt)
    have "sint ?h \<noteq> - 2147483648"
    proof
      assume "sint ?h = - 2147483648"
      then have "word_of_int (sint ?h) = (word_of_int (- 2147483648) :: int32)"
        by simp
      then have "?h = - 2147483648"
        by simp
      with assms show False by simp
    qed
    moreover have "- 2147483648 \<le> sint ?h"
      using sint_ge [of ?h] by simp
    ultimately have lo: "- 2147483648 < sint ?h"
      by linarith
    have "sint (- ?h) = - sint ?h"
      using lo neg sint_lt [of ?h]
      by (simp add: sint_word_ariths signed_take_bit_int_eq_self)
    then show ?thesis
      using True neg by (simp add: simpleStringHash_def Let_def)
  qed
qed

text \<open>
  C2. For a secret that is no base-10 integer of the i32 range, coercion to \<open>i32\<close>
  renders the polynomial hash (31 times the accumulator plus the code point, in wrapping
  32-bit arithmetic, negated once if negative), and the claim adds that the literal is
  never negative. The secret \<open>GydZG_\<close> is no integer, its accumulator ends at
  \<open>-2147483648\<close>, the negation wraps to the same value, and the literal is
  \<open>-2147483648\<close>.
\<close>

theorem hash_literal_negative:
  "ParseInt ''GydZG_'' 32 = None \<and>
   sint (simpleStringHash ''GydZG_'') = - 2147483648 \<and>
   convertSecretToWASMValue (\<lambda>s. None) ''GydZG_'' ''i32'' = Inr ''-2147483648''"
proof -
  have none: "ParseInt ''GydZG_'' 32 = None"
    by (simp add: parse_eval)
  have rs: "runes ''GydZG_'' = [71, 121, 100, 90, 71, 95]"
    by (simp add: runes_eval)
  have acc: "foldl hash_step 0 [71, 121, 100, 90, 71, 95] = (2147483648 :: int32)"
    by (simp add: hash_step_def)
  have neg: "(2147483648 :: int32) <s 0"
    by (simp add: word_sless_alt)
  have h: "simpleStringHash ''GydZG_'' = 2147483648"
    unfolding simpleStringHash_def rs acc Let_def using neg by simp
  have s: "sint (2147483648 :: int32) = - 2147483648"
    by simp
  have lit: "show_int (- 2147483648) = ''-2147483648''"
    by (simp add: show_eval)
  show ?thesis
    by (simp add: none convertSecretToWASMValue_def h s lit)
qed

subsection \<open>Secrets that are integers\<close>

text \<open>
  C5, as stated, fails: a secret that parses as an integer in range is not always
  returned character for character. The secret \<open>+5\<close> parses as 5 and the
  literal is \<open>5\<close>.
\<close>

theorem convert_plus_sign_not_verbatim:
  "ParseInt ''+5'' 32 = Some 5 \<and>
   convertSecretToWASMValue (\<lambda>s. None) ''+5'' ''i32'' = Inr ''5'' \<and>
   convertSecretToWASMValue (\<lambda>s. None) ''+5'' ''i32'' \<noteq> Inr ''+5''"
proof -
  have parses: "ParseInt ''+5'' 32 = Some 5"
    by (simp add: parse_eval)
  have shown: "show_int 5 = ''5''"
    by (simp add: show_eval)
  show ?thesis
    by (simp add: convertSecretToWASMValue_def parses shown)
qed

text \<open>
  C5, amended. For every secret that parses as a base-10 integer within the range of
  the kind (32 bits for \<open>i32\<close>, 64 bits for \<open>i64\<close>), coercion returns the
  decimal rendering of the parsed value (a minus sign for a negative value, no plus
  sign, no leading zeros); a secret that is itself such a rendering is returned
  unchanged.
\<close>

theorem convert_integer_canonical:
  assumes which: "(kind = ''i32'' \<and> bits = 32) \<or> (kind = ''i64'' \<and> bits = 64)"
    and parses: "ParseInt secret bits = Some n"
  shows "convertSecretToWASMValue fmtFloat secret kind = Inr (show_int n) \<and>
         convertSecretToWASMValue fmtFloat (show_int n) kind = Inr (show_int n)"
proof -
  have range: "- (2 ^ (bits - 1)) \<le> n \<and> n < 2 ^ (bits - 1)"
    using parses by (rule ParseInt_range)
  then have reparse: "ParseInt (show_int n) bits = Some n"
    by (simp add: ParseInt_show_int)
  from which show ?thesis
  proof
    assume "kind = ''i32'' \<and> bits = 32"
    then show ?thesis
      using parses reparse by (simp add: convertSecretToWASMValue_def)
  next
    assume "kind = ''i64'' \<and> bits = 64"
    then show ?thesis
      using parses reparse by (simp add: convertSecretToWASMValue_def)
  qed
qed

text \<open>The amended C5 at the secret \<open>-007\<close> for kind \<open>i64\<close>.\<close>

theorem convert_integer_canonical_witness:
  "ParseInt ''-007'' 64 = Some (- 7) \<and>
   convertSecretToWASMValue (\<lambda>s. None) ''-007'' ''i64'' = Inr ''-7'' \<and>
   convertSecretToWASMValue (\<lambda>s. None) ''-7'' ''i64'' = Inr ''-7''"
proof -
  have which: "(''i64'' = ''i32'' \<and> (64::nat) = 32) \<or> (''i64'' = ''i64'' \<and> (64::nat) = 64)"
    by simp
  have parses: "ParseInt ''-007'' 64 = Some (- 7)"
    by (simp add: parse_eval)
  have shown: "show_int (- 7) = ''-7''"
    by (simp add: show_eval)
  show ?thesis
    using convert_integer_canonical [OF which parses, of "\<lambda>s. None"] parses
    by (simp only: shown simp_thms)
qed

subsection \<open>The hash fallback for \<open>i64\<close>\<close>



section \<open>Template processor: properties\<close>

subsection \<open>The pieces of the pattern\<close>

lemma lit_Some: "lit p s = Some r \<longleftrightarrow> s = p @ r"
  by (auto simp: lit_def prefix_def)

lemma spaces1_Some:
  "spaces1 s = Some r \<longleftrightarrow> (\<exists>w. s = w @ r \<and> blanks w \<and> (r = [] \<or> \<not> is_space (hd r)))"
proof
  assume "spaces1 s = Some r"
  then obtain c cs where s: "s = c # cs" and c: "is_space c" and r: "r = dropWhile is_space cs"
    by (auto simp: spaces1_def split: list.splits if_splits)
  let ?w = "c # takeWhile is_space cs"
  have "s = ?w @ r" using s r by simp
  moreover have "blanks ?w"
    using c by (auto simp: blanks_def list_all_iff dest: set_takeWhileD)
  moreover have "r = [] \<or> \<not> is_space (hd r)"
    using r hd_dropWhile [of is_space cs] by auto
  ultimately show "\<exists>w. s = w @ r \<and> blanks w \<and> (r = [] \<or> \<not> is_space (hd r))"
    by blast
next
  assume "\<exists>w. s = w @ r \<and> blanks w \<and> (r = [] \<or> \<not> is_space (hd r))"
  then obtain w where s: "s = w @ r" and w: "blanks w" and r: "r = [] \<or> \<not> is_space (hd r)"
    by blast
  from w obtain c cs where wc: "w = c # cs" and c: "is_space c" and cs: "\<forall>x \<in> set cs. is_space x"
    by (cases w) (auto simp: blanks_def list_all_iff)
  have "dropWhile is_space (cs @ r) = r"
    using cs r by (cases r) (auto simp: dropWhile_append)
  then show "spaces1 s = Some r"
    using s wc c by (simp add: spaces1_def)
qed

lemma upto_quote_Some:
  "upto_quote s = Some (a, r) \<longleftrightarrow> s = a @ dquote # r \<and> dquote \<notin> set a"
proof
  assume "upto_quote s = Some (a, r)"
  then obtain q where d: "dropWhile (\<lambda>c. c \<noteq> dquote) s = q # r"
    and a: "a = takeWhile (\<lambda>c. c \<noteq> dquote) s"
    by (auto simp: upto_quote_def split: list.splits)
  have "q = dquote"
    using hd_dropWhile [of "\<lambda>c. c \<noteq> dquote" s] d by auto
  moreover have "s = a @ q # r"
    using takeWhile_dropWhile_id [of "\<lambda>c. c \<noteq> dquote" s] a d by simp
  moreover have "dquote \<notin> set a"
    using a by (auto dest: set_takeWhileD)
  ultimately show "s = a @ dquote # r \<and> dquote \<notin> set a"
    by simp
next
  assume "s = a @ dquote # r \<and> dquote \<notin> set a"
  then have s: "s = a @ dquote # r" and a: "\<forall>x \<in> set a. x \<noteq> dquote"
    by auto
  have "takeWhile (\<lambda>c. c \<noteq> dquote) s = a" "dropWhile (\<lambda>c. c \<noteq> dquote) s = dquote # r"
    using s a by (simp_all add: takeWhile_append2 dropWhile_append2)
  then show "upto_quote s = Some (a, r)"
    by (simp add: upto_quote_def)
qed

lemma ident1_Some:
  "ident1 s = Some (a, r) \<longleftrightarrow>
     s = a @ r \<and> a \<noteq> [] \<and> list_all is_ident_char a \<and> (r = [] \<or> \<not> is_ident_char (hd r))"
proof
  assume "ident1 s = Some (a, r)"
  then have a: "a = takeWhile is_ident_char s" and r: "r = dropWhile is_ident_char s"
    and ne: "a \<noteq> []"
    by (auto simp: ident1_def split: if_splits)
  have "list_all is_ident_char a"
    using a by (auto simp: list_all_iff dest: set_takeWhileD)
  moreover have "r = [] \<or> \<not> is_ident_char (hd r)"
    using r hd_dropWhile [of is_ident_char s] by auto
  ultimately show "s = a @ r \<and> a \<noteq> [] \<and> list_all is_ident_char a \<and> (r = [] \<or> \<not> is_ident_char (hd r))"
    using a r ne by simp
next
  assume h: "s = a @ r \<and> a \<noteq> [] \<and> list_all is_ident_char a \<and> (r = [] \<or> \<not> is_ident_char (hd r))"
  then have all: "\<forall>x \<in> set a. is_ident_char x"
    by (simp add: list_all_iff)
  have "takeWhile is_ident_char (a @ r) = a" "dropWhile is_ident_char (a @ r) = r"
    using all h by (cases r; simp add: takeWhile_append dropWhile_append)+
  with h show "ident1 s = Some (a, r)"
    by (simp add: ident1_def)
qed

lemma wasm_kind_Some:
  "wasm_kind s = Some (k, r) \<longleftrightarrow> s = k @ r \<and> k \<in> {''i32'', ''i64'', ''f32'', ''f64''}"
  by (auto simp: wasm_kind_def prefix_def split: if_splits)


subsection \<open>The pattern matches exactly the declarations\<close>

lemma blanks_hd: "blanks w \<Longrightarrow> is_space (hd (w @ r))"
  by (cases w) (auto simp: blanks_def)

lemma kind_hd:
  "kind \<in> {''i32'', ''i64'', ''f32'', ''f64''} \<Longrightarrow> \<not> is_space (hd (kind @ r))"
  by (auto simp: is_space_def)

lemma match_here_declaration:
  assumes "declaration_parts d"
  shows "match_here (declaration_text d @ rest) =
           Some (\<lparr>fullImport = declaration_text d, secretName = name_string d,
                  globalName = global_ident d, wasmType = numeric_kind d\<rparr>, rest)"
proof -
  define t14 where "t14 = ''))'' @ rest"
  define t13 where "t13 = numeric_kind d @ t14"
  define t12 where "t12 = blanks5 d @ t13"
  define t11 where "t11 = global_ident d @ t12"
  define t10 where "t10 = ''$'' @ t11"
  define t9 where "t9 = blanks4 d @ t10"
  define t8 where "t8 = ''(global'' @ t9"
  define t7 where "t7 = blanks3 d @ t8"
  define t6 where "t6 = name_string d @ dquote # t7"
  define t5 where "t5 = [dquote] @ t6"
  define t4 where "t4 = blanks2 d @ t5"
  define t3 where "t3 = module_string d @ dquote # t4"
  define t2 where "t2 = [dquote] @ t3"
  define t1 where "t1 = blanks1 d @ t2"
  define s where "s = ''(import'' @ t1"
  note defs = t14_def t13_def t12_def t11_def t10_def t9_def t8_def t7_def t6_def t5_def
    t4_def t3_def t2_def t1_def s_def
  from assms have b: "blanks (blanks1 d)" "blanks (blanks2 d)" "blanks (blanks3 d)"
      "blanks (blanks4 d)" "blanks (blanks5 d)"
    and q: "dquote \<notin> set (module_string d)" "dquote \<notin> set (name_string d)"
    and n: "name_string d \<noteq> []"
    and i: "global_ident d \<noteq> []" "list_all is_ident_char (global_ident d)"
    and k: "numeric_kind d \<in> {''i32'', ''i64'', ''f32'', ''f64''}"
    by (simp_all add: declaration_parts_def)
  have nsq: "\<not> is_space dquote"
    by (simp add: is_space_def dquote_def)
  have e1: "lit ''(import'' s = Some t1"
    by (simp add: lit_Some s_def)
  have e2: "spaces1 t1 = Some t2"
    unfolding spaces1_Some t1_def using b(1) nsq
    by (intro exI [of _ "blanks1 d"]) (simp add: t2_def)
  have e3: "lit [dquote] t2 = Some t3"
    by (simp add: lit_Some t2_def)
  have e4: "upto_quote t3 = Some (module_string d, t4)"
    by (simp add: upto_quote_Some t3_def q)
  have e5: "spaces1 t4 = Some t5"
    unfolding spaces1_Some t4_def using b(2) nsq
    by (intro exI [of _ "blanks2 d"]) (simp add: t5_def)
  have e6: "lit [dquote] t5 = Some t6"
    by (simp add: lit_Some t5_def)
  have e7: "upto_quote t6 = Some (name_string d, t7)"
    by (simp add: upto_quote_Some t6_def q)
  have e8: "spaces1 t7 = Some t8"
    unfolding spaces1_Some t7_def using b(3)
    by (intro exI [of _ "blanks3 d"]) (simp add: t8_def is_space_def)
  have e9: "lit ''(global'' t8 = Some t9"
    by (simp add: lit_Some t8_def)
  have e10: "spaces1 t9 = Some t10"
    unfolding spaces1_Some t9_def using b(4)
    by (intro exI [of _ "blanks4 d"]) (simp add: t10_def is_space_def)
  have e11: "lit ''$'' t10 = Some t11"
    by (simp add: lit_Some t10_def)
  have "\<not> is_ident_char (hd t12)"
    using blanks_hd [OF b(5), of t13] by (simp add: t12_def is_ident_char_def)
  then have e12: "ident1 t11 = Some (global_ident d, t12)"
    by (simp add: ident1_Some t11_def i)
  have e13: "spaces1 t12 = Some t13"
    unfolding spaces1_Some t12_def using b(5) kind_hd [OF k, of t14]
    by (intro exI [of _ "blanks5 d"]) (simp add: t13_def)
  have e14: "wasm_kind t13 = Some (numeric_kind d, t14)"
    using k by (simp add: wasm_kind_Some t13_def)
  have e15: "lit ''))'' t14 = Some rest"
    by (simp add: lit_Some t14_def)
  have whole: "s = declaration_text d @ rest"
    by (simp add: defs declaration_text_def)
  then have "take (length s - length rest) s = declaration_text d"
    by simp
  then have "match_here s =
           Some (\<lparr>fullImport = declaration_text d, secretName = name_string d,
                  globalName = global_ident d, wasmType = numeric_kind d\<rparr>, rest)"
    by (simp add: match_here_def e1 e2 e3 e4 e5 e6 e7 e8 e9 e10 e11 e12 e13 e14 e15 n)
  then show ?thesis
    by (simp only: whole)
qed

lemma match_here_parts:
  assumes "match_here s = Some (m, rest)"
  shows "\<exists>d. declaration_parts d \<and> fullImport m = declaration_text d \<and>
           secretName m = name_string d \<and> globalName m = global_ident d \<and>
           wasmType m = numeric_kind d \<and> s = fullImport m @ rest"
proof -
  from assms obtain t1 t2 t3 modname t4 t5 t6 name t7 t8 t9 t10 t11 ident t12 t13 kind t14 where
    e: "lit ''(import'' s = Some t1" "spaces1 t1 = Some t2" "lit [dquote] t2 = Some t3"
      "upto_quote t3 = Some (modname, t4)" "spaces1 t4 = Some t5" "lit [dquote] t5 = Some t6"
      "upto_quote t6 = Some (name, t7)" "name \<noteq> []" "spaces1 t7 = Some t8"
      "lit ''(global'' t8 = Some t9" "spaces1 t9 = Some t10" "lit ''$'' t10 = Some t11"
      "ident1 t11 = Some (ident, t12)" "spaces1 t12 = Some t13"
      "wasm_kind t13 = Some (kind, t14)" "lit ''))'' t14 = Some rest"
    and m: "m = \<lparr>fullImport = take (length s - length rest) s, secretName = name,
                 globalName = ident, wasmType = kind\<rparr>"
    by (auto simp: match_here_def bind_eq_Some_conv split: if_splits)
  from e(2) obtain w1 where w1: "t1 = w1 @ t2" "blanks w1" by (auto simp: spaces1_Some)
  from e(5) obtain w2 where w2: "t4 = w2 @ t5" "blanks w2" by (auto simp: spaces1_Some)
  from e(9) obtain w3 where w3: "t7 = w3 @ t8" "blanks w3" by (auto simp: spaces1_Some)
  from e(11) obtain w4 where w4: "t9 = w4 @ t10" "blanks w4" by (auto simp: spaces1_Some)
  from e(14) obtain w5 where w5: "t12 = w5 @ t13" "blanks w5" by (auto simp: spaces1_Some)
  define d where "d = \<lparr>blanks1 = w1, module_string = modname, blanks2 = w2, name_string = name,
    blanks3 = w3, blanks4 = w4, global_ident = ident, blanks5 = w5, numeric_kind = kind\<rparr>"
  have parts: "declaration_parts d"
    using w1(2) w2(2) w3(2) w4(2) w5(2) e(4,7,8,13,15)
    by (simp add: d_def declaration_parts_def upto_quote_Some ident1_Some wasm_kind_Some)
  have whole: "s = declaration_text d @ rest"
    using e w1(1) w2(1) w3(1) w4(1) w5(1)
    by (simp add: d_def lit_Some upto_quote_Some ident1_Some wasm_kind_Some declaration_text_def)
  then have "fullImport m = declaration_text d"
    by (simp add: m)
  with parts whole m show ?thesis
    by (intro exI [of _ d]) (simp add: d_def)
qed

text \<open>A match depends on the text of the declaration alone, not on what follows it.\<close>

lemma match_here_text:
  assumes "match_here s = Some (m, rest)"
  shows "s = fullImport m @ rest" and "match_here (fullImport m @ r) = Some (m, r)"
proof -
  from match_here_parts [OF assms] obtain d where
    parts: "declaration_parts d" and shape: "fullImport m = declaration_text d"
    and fields: "secretName m = name_string d" "globalName m = global_ident d"
      "wasmType m = numeric_kind d"
    and s: "s = fullImport m @ rest"
    by blast
  show "s = fullImport m @ rest" by (rule s)
  have "match_here (fullImport m @ r) =
      Some (\<lparr>fullImport = fullImport m, secretName = secretName m, globalName = globalName m,
              wasmType = wasmType m\<rparr>, r)"
    using match_here_declaration [OF parts, of r] by (simp add: shape fields)
  then show "match_here (fullImport m @ r) = Some (m, r)"
    by simp
qed

subsection \<open>Where the text \<open>(import\<close> can occur\<close>

text \<open>
  An occurrence that starts in \<open>u\<close> cannot reach across a character that the searched
  text does not have after its first place.
\<close>

lemma prefix_across:
  assumes "u \<noteq> []" "c \<notin> set (tl p)"
  shows "prefix p (u @ c # r) \<longleftrightarrow> prefix p u"
proof
  assume "prefix p u"
  then show "prefix p (u @ c # r)" by (rule prefix_prefix)
next
  assume "prefix p (u @ c # r)"
  then have "prefix p u \<or> (\<exists>us. p = u @ us \<and> prefix us (c # r))"
    by (simp add: prefix_append)
  then show "prefix p u"
  proof
    assume "prefix p u"
    then show ?thesis .
  next
    assume "\<exists>us. p = u @ us \<and> prefix us (c # r)"
    then obtain us where us: "p = u @ us" "prefix us (c # r)" by blast
    show ?thesis
    proof (cases us)
      case Nil
      with us(1) show ?thesis by simp
    next
      case (Cons x us')
      with us(2) have "x = c" by simp
      with Cons us(1) assms(1) have "c \<in> set (tl p)"
        by (cases u) auto
      with assms(2) show ?thesis by simp
    qed
  qed
qed

lemma Contains_iff: "Contains s p \<longleftrightarrow> (\<exists>k \<le> length s. prefix p (drop k s))"
proof (induction s)
  case Nil
  then show ?case by simp
next
  case (Cons c cs)
  show ?case
  proof
    assume "Contains (c # cs) p"
    then consider "prefix p (c # cs)" | "Contains cs p" by auto
    then show "\<exists>k \<le> length (c # cs). prefix p (drop k (c # cs))"
    proof cases
      case 1
      then show ?thesis by (intro exI [of _ 0]) simp
    next
      case 2
      with Cons obtain k where "k \<le> length cs" "prefix p (drop k cs)" by auto
      then show ?thesis by (intro exI [of _ "Suc k"]) simp
    qed
  next
    assume "\<exists>k \<le> length (c # cs). prefix p (drop k (c # cs))"
    then obtain k where k: "k \<le> length (c # cs)" "prefix p (drop k (c # cs))" by blast
    show "Contains (c # cs) p"
    proof (cases k)
      case 0
      with k show ?thesis by simp
    next
      case (Suc j)
      with k have "j \<le> length cs" "prefix p (drop j cs)" by simp_all
      with Cons show ?thesis by auto
    qed
  qed
qed

text \<open>\<open>Replace1\<close> replaces the occurrence after \<open>pre\<close> when there is none before it.\<close>

lemma Replace1_first:
  assumes "old \<noteq> []" "\<And>k. k < length pre \<Longrightarrow> \<not> prefix old (drop k (pre @ old @ post))"
  shows "Replace1 (pre @ old @ post) old new = pre @ new @ post"
  using assms(2)
proof (induction pre)
  case Nil
  from assms(1) obtain c cs where "old = c # cs" by (cases old) auto
  then show ?case by simp
next
  case (Cons x pre)
  from Cons.prems [of 0] have "\<not> prefix old ((x # pre) @ old @ post)" by simp
  moreover have "Replace1 (pre @ old @ post) old new = pre @ new @ post"
  proof (rule Cons.IH)
    fix k assume "k < length pre"
    then show "\<not> prefix old (drop k (pre @ old @ post))"
      using Cons.prems [of "Suc k"] by simp
  qed
  ultimately show ?case by simp
qed

lemma import_free_Nil: "import_free [] x"
  by (simp add: import_free_def)

lemma import_free_Cons:
  "import_free (c # t) x \<longleftrightarrow> \<not> prefix ''(import'' (c # t @ x) \<and> import_free t x"
proof -
  have "(\<forall>k < Suc (length t). \<not> prefix ''(import'' (drop k (c # t @ x))) \<longleftrightarrow>
        (\<not> prefix ''(import'' (drop 0 (c # t @ x)) \<and>
         (\<forall>k < length t. \<not> prefix ''(import'' (drop (Suc k) (c # t @ x))))"
    by (rule All_less_Suc2)
  then show ?thesis
    by (simp add: import_free_def)
qed

lemma import_free_append:
  "import_free (a @ b) x \<longleftrightarrow> import_free a (b @ x) \<and> import_free b x"
  by (induction a) (auto simp: import_free_Nil import_free_Cons)

lemma import_free_no_paren: "CHR ''('' \<notin> set t \<Longrightarrow> import_free t x"
  by (induction t) (auto simp: import_free_Nil import_free_Cons)

lemma import_free_before:
  assumes "c \<notin> set ''import''"
  shows "import_free t (c # x) \<longleftrightarrow> import_free t []"
proof -
  have "prefix ''(import'' (drop k (t @ c # x)) \<longleftrightarrow> prefix ''(import'' (drop k (t @ []))"
    if k: "k < length t" for k
  proof -
    from k have ne: "drop k t \<noteq> []" by simp
    have "prefix ''(import'' (drop k t @ c # x) \<longleftrightarrow> prefix ''(import'' (drop k t)"
      using ne assms by (intro prefix_across) auto
    then show ?thesis using k by simp
  qed
  then show ?thesis by (simp add: import_free_def)
qed

lemma import_free_Contains: "\<not> Contains t ''(import'' \<Longrightarrow> import_free t []"
  by (auto simp: Contains_iff import_free_def)

subsection \<open>What a declaration and its replacement contain\<close>

lemma match_here_layout:
  assumes "match_here s = Some (m, rest)"
  shows "\<exists>a w b. tl (fullImport m) = a @ globalName m @ w # b @ '')'' \<and> is_space w"
    and "prefix ''(import'' (fullImport m)"
    and "wasmType m \<in> {''i32'', ''i64'', ''f32'', ''f64''}"
proof -
  from match_here_parts [OF assms] obtain d where
    parts: "declaration_parts d" and shape: "fullImport m = declaration_text d"
    and fields: "secretName m = name_string d" "globalName m = global_ident d"
      "wasmType m = numeric_kind d"
    by blast
  from parts obtain w w5' where w5: "blanks5 d = w # w5'" "is_space w"
    by (cases "blanks5 d") (auto simp: declaration_parts_def blanks_def)
  let ?a = "''import'' @ blanks1 d @ [dquote] @ module_string d @ [dquote] @ blanks2 d @ [dquote]
              @ name_string d @ [dquote] @ blanks3 d @ ''(global'' @ blanks4 d @ ''$''"
  let ?b = "w5' @ numeric_kind d @ '')''"
  have "tl (fullImport m) = ?a @ globalName m @ w # ?b @ '')''"
    by (simp add: shape declaration_text_def w5(1) fields)
  with w5(2) show "\<exists>a w b. tl (fullImport m) = a @ globalName m @ w # b @ '')'' \<and> is_space w"
    by blast
  show "prefix ''(import'' (fullImport m)"
    by (simp add: shape declaration_text_def)
  from parts show "wasmType m \<in> {''i32'', ''i64'', ''f32'', ''f64''}"
    by (simp add: declaration_parts_def fields)
qed

lemma space_not_in_import: "is_space w \<Longrightarrow> w \<notin> set ''import''"
  by (auto simp: is_space_def)

lemma declaration_import_free:
  assumes "match_here s = Some (m, rest)" "\<not> Contains (tl (fullImport m)) ''(import''"
  shows "import_free (tl (fullImport m)) x" and "import_free (globalName m) []"
proof -
  from match_here_layout(1) [OF assms(1)] obtain a w b where
    layout: "tl (fullImport m) = a @ globalName m @ w # b @ '')''" and w: "is_space w"
    by blast
  have free: "import_free (tl (fullImport m)) []"
    using assms(2) by (rule import_free_Contains)
  have "import_free ((a @ globalName m @ w # b) @ '')'') []"
    using free by (simp add: layout)
  then have "import_free (a @ globalName m @ w # b) '')''"
    by (simp only: import_free_append append_Nil2)
  then have inner: "import_free (a @ globalName m @ w # b) []"
    using import_free_before [of "CHR '')''" "a @ globalName m @ w # b" "[]"] by simp
  then have "import_free (a @ globalName m @ w # b) (CHR '')'' # x)"
    using import_free_before [of "CHR '')''" "a @ globalName m @ w # b" x] by simp
  moreover have "import_free '')'' x"
    by (rule import_free_no_paren) simp
  ultimately have "import_free ((a @ globalName m @ w # b) @ '')'') x"
    by (simp only: import_free_append) simp
  then show "import_free (tl (fullImport m)) x"
    by (simp add: layout)
  from inner have "import_free (globalName m) (w # b)"
    by (simp add: import_free_append)
  then show "import_free (globalName m) []"
    using import_free_before [OF space_not_in_import [OF w], of "globalName m" b] by simp
qed

lemma globalDef_import_free:
  assumes "import_free ident []" "kind \<in> {''i32'', ''i64'', ''f32'', ''f64''}"
    "CHR ''('' \<notin> set wasmValue"
  shows "import_free (globalDef ident kind wasmValue) x"
proof -
  let ?tail = "wasmValue @ ''))''"
  have tail: "import_free ?tail x"
    using assms(3) by (intro import_free_no_paren) simp
  have mid: "import_free ('' '' @ kind @ '' ('' @ kind @ ''.const '') (?tail @ x)"
    using assms(2) by (auto simp: import_free_Cons import_free_Nil)
  have name: "import_free ident (('' '' @ kind @ '' ('' @ kind @ ''.const '') @ ?tail @ x)"
    using assms(1)
      import_free_before [of "CHR '' ''" ident "kind @ '' ('' @ kind @ ''.const '' @ ?tail @ x"]
    by simp
  have head: "import_free ''(global $'' (ident @ ('' '' @ kind @ '' ('' @ kind @ ''.const '') @ ?tail @ x)"
    by (simp add: import_free_Cons import_free_Nil)
  have "import_free (''(global $'' @ ident @ ('' '' @ kind @ '' ('' @ kind @ ''.const '') @ ?tail) x"
    using head name mid tail by (simp only: import_free_append append_assoc)
  then show ?thesis
    by (simp add: globalDef_def)
qed

lemma show_nat_digits: "set (show_nat n) \<subseteq> digit_char ` {..<10}"
proof (induction n rule: show_nat.induct)
  case (1 n)
  show ?case
  proof (cases "n < 10")
    case True
    then show ?thesis by (subst show_nat.simps) auto
  next
    case False
    with 1 have "set (show_nat (n div 10)) \<subseteq> digit_char ` {..<10}" by simp
    moreover have "n mod 10 < 10" by simp
    ultimately show ?thesis
      using False by (subst show_nat.simps) auto
  qed
qed

lemma show_int_no_paren: "CHR ''('' \<notin> set (show_int i)"
proof -
  have "CHR ''('' \<notin> digit_char ` {..<10}"
  proof
    assume "CHR ''('' \<in> digit_char ` {..<10}"
    then obtain d where d: "d < 10" "CHR ''('' = digit_char d" by auto
    from byte_digit_char [OF d(1)] d(2) have "byte CHR ''('' = 48 + d" by simp
    then show False by (simp add: byte_def)
  qed
  then have "CHR ''('' \<notin> set (show_nat n)" for n
    using show_nat_digits [of n] by auto
  then show ?thesis
    by (simp add: show_int_def)
qed

lemma convert_no_paren:
  assumes "convertSecretToWASMValue fmtFloat secretValue kind = Inr wasmValue"
    and "\<forall>v t. fmtFloat v = Some t \<longrightarrow> CHR ''('' \<notin> set t"
  shows "CHR ''('' \<notin> set wasmValue"
  using assms
  by (auto simp: convertSecretToWASMValue_def show_int_no_paren split: if_splits option.splits)

subsection \<open>The loop replaces each declaration where it stands\<close>

lemma match_here_extend:
  assumes "match_here (drop k out) = Some (m, r)" "k < length out"
  shows "match_here (drop k (out @ a)) = Some (m, r @ a)"
proof -
  from match_here_text(1) [OF assms(1)] have "drop k out = fullImport m @ r" .
  then have "drop k (out @ a) = fullImport m @ (r @ a)"
    using assms(2) by simp
  then show ?thesis
    using match_here_text(2) [OF assms(1), of "r @ a"] by simp
qed

lemma settled_append:
  assumes "settled secrets out src"
    and old: "\<And>k. k < length out \<Longrightarrow> prefix ''(import'' (drop k (out @ a @ src')) \<Longrightarrow>
                prefix ''(import'' (drop k (out @ src))"
    and new: "\<And>j. j < length a \<Longrightarrow> prefix ''(import'' (drop j (a @ src')) \<Longrightarrow>
                \<exists>m r. match_here (drop j a) = Some (m, r) \<and> secrets (secretName m) = None"
  shows "settled secrets (out @ a) src'"
  unfolding settled_def
proof (intro allI impI)
  fix k
  assume k: "k < length (out @ a)" and occ: "prefix ''(import'' (drop k ((out @ a) @ src'))"
  show "\<exists>m r. match_here (drop k (out @ a)) = Some (m, r) \<and> secrets (secretName m) = None"
  proof (cases "k < length out")
    case True
    from occ have "prefix ''(import'' (drop k (out @ a @ src'))" by simp
    then have "prefix ''(import'' (drop k (out @ src))"
      using True by (rule old [rotated])
    with assms(1) True obtain m r where
      m: "match_here (drop k out) = Some (m, r)" "secrets (secretName m) = None"
      by (auto simp: settled_def)
    from match_here_extend [OF m(1) True, of a] m(2) show ?thesis by blast
  next
    case False
    define j where "j = k - length out"
    from False k have j: "j < length a" by (simp add: j_def)
    from False have d1: "drop k ((out @ a) @ src') = drop j (a @ src')"
      and d2: "drop k (out @ a) = drop j a"
      by (simp_all add: j_def)
    from new [OF j] occ d1 d2 show ?thesis by simp
  qed
qed

lemma settled_plain:
  assumes "settled secrets out (c # cs)" "\<not> prefix ''(import'' (c # cs)"
  shows "settled secrets (out @ [c]) cs"
proof (rule settled_append [OF assms(1)])
  fix k assume "k < length out" "prefix ''(import'' (drop k (out @ [c] @ cs))"
  then show "prefix ''(import'' (drop k (out @ c # cs))" by simp
next
  fix j assume "j < length [c]" "prefix ''(import'' (drop j ([c] @ cs))"
  with assms(2) show "\<exists>m r. match_here (drop j [c]) = Some (m, r) \<and> secrets (secretName m) = None"
    by simp
qed

lemma settled_kept:
  assumes "settled secrets out (fullImport m @ rest)"
    and m: "match_here (fullImport m @ rest) = Some (m, rest)"
    and none: "secrets (secretName m) = None"
    and free: "import_free (tl (fullImport m)) rest"
  shows "settled secrets (out @ fullImport m) rest"
proof (rule settled_append [OF assms(1)])
  fix k assume "k < length out" "prefix ''(import'' (drop k (out @ fullImport m @ rest))"
  then show "prefix ''(import'' (drop k (out @ fullImport m @ rest))" by simp
next
  fix j assume j: "j < length (fullImport m)"
    and occ: "prefix ''(import'' (drop j (fullImport m @ rest))"
  have here: "match_here (fullImport m) = Some (m, [])"
    using match_here_text(2) [OF m, of "[]"] by simp
  show "\<exists>m' r. match_here (drop j (fullImport m)) = Some (m', r) \<and> secrets (secretName m') = None"
  proof (cases j)
    case 0
    with here none show ?thesis by simp
  next
    case (Suc i)
    from j Suc have ne: "fullImport m \<noteq> []" by auto
    then have split: "fullImport m = hd (fullImport m) # tl (fullImport m)" by simp
    from j Suc ne have i: "i < length (tl (fullImport m))" by simp
    have "drop j (fullImport m @ rest) = drop i (tl (fullImport m) @ rest)"
      by (subst split) (simp add: Suc)
    with occ free i show ?thesis
      by (simp add: import_free_def)
  qed
qed

lemma settled_replaced:
  assumes "settled secrets out (old @ rest)" "import_free (CHR ''('' # new) rest"
  shows "settled secrets (out @ CHR ''('' # new) rest"
proof (rule settled_append [OF assms(1)])
  fix k assume k: "k < length out"
    and occ: "prefix ''(import'' (drop k (out @ (CHR ''('' # new) @ rest))"
  from k have ne: "drop k out \<noteq> []" by simp
  have "prefix ''(import'' (drop k out @ CHR ''('' # new @ rest) \<longleftrightarrow>
        prefix ''(import'' (drop k out)"
    using ne by (intro prefix_across) auto
  with occ k have "prefix ''(import'' (drop k out)" by simp
  then have "prefix ''(import'' (drop k out @ old @ rest)" by (rule prefix_prefix)
  with k show "prefix ''(import'' (drop k (out @ old @ rest))" by simp
next
  fix j assume "j < length (CHR ''('' # new)"
    and "prefix ''(import'' (drop j ((CHR ''('' # new) @ rest))"
  with assms(2) show "\<exists>m r. match_here (drop j (CHR ''('' # new)) = Some (m, r) \<and>
      secrets (secretName m) = None"
    by (simp add: import_free_def)
qed

lemma not_before:
  assumes "settled secrets out (fullImport m @ rest)"
    and m: "match_here (fullImport m @ rest) = Some (m, rest)"
    and some: "secrets (secretName m) = Some v"
    and k: "k < length out"
  shows "\<not> prefix (fullImport m) (drop k (out @ fullImport m @ rest))"
proof
  assume occ: "prefix (fullImport m) (drop k (out @ fullImport m @ rest))"
  then obtain y where y: "drop k (out @ fullImport m @ rest) = fullImport m @ y"
    by (auto simp: prefix_def)
  have there: "match_here (drop k (out @ fullImport m @ rest)) = Some (m, y)"
    using match_here_text(2) [OF m, of y] y by simp
  have "prefix ''(import'' (fullImport m)"
    using m by (rule match_here_layout(2))
  then have "prefix ''(import'' (drop k (out @ fullImport m @ rest))"
    using occ by (rule prefix_order.trans)
  with assms(1) k obtain m' r where
    m': "match_here (drop k out) = Some (m', r)" "secrets (secretName m') = None"
    by (auto simp: settled_def)
  from match_here_extend [OF m'(1) k, of "fullImport m @ rest"] there have "m' = m"
    by simp
  with m'(2) some show False by simp
qed

lemma match_here_Nil: "match_here [] = None"
  by (simp add: match_here_def lit_def)

lemma scan_Nil:
  "FindAllStringSubmatch [] = []" "segments [] = []" "only_placeholder_imports []"
  by (simp_all add: FindAllStringSubmatch.simps [of "[]"] segments.simps [of "[]"]
      only_placeholder_imports.simps [of "[]"] match_here_Nil)

lemma scan_plain:
  assumes "match_here (c # cs) = None"
  shows "FindAllStringSubmatch (c # cs) = FindAllStringSubmatch cs"
    and "segments (c # cs) = Plain c # segments cs"
    and "only_placeholder_imports (c # cs) \<longleftrightarrow>
           \<not> prefix ''(import'' (c # cs) \<and> only_placeholder_imports cs"
  using assms
  by (simp_all add: FindAllStringSubmatch.simps [of "c # cs"] segments.simps [of "c # cs"]
      only_placeholder_imports.simps [of "c # cs"])

lemma scan_match:
  assumes "match_here s = Some (m, rest)"
  shows "FindAllStringSubmatch s = m # FindAllStringSubmatch rest"
    and "segments s = Declaration m # segments rest"
    and "only_placeholder_imports s \<longleftrightarrow>
           \<not> Contains (tl (fullImport m)) ''(import'' \<and> only_placeholder_imports rest"
  using assms
  by (simp_all add: FindAllStringSubmatch.simps [of s] segments.simps [of s]
      only_placeholder_imports.simps [of s])

lemma inject_matches_in_place:
  assumes fmt: "\<forall>v t. fmtFloat v = Some t \<longrightarrow> CHR ''('' \<notin> set t"
  shows "only_placeholder_imports src \<Longrightarrow>
     (\<forall>m \<in> set (FindAllStringSubmatch src). \<forall>v. secrets (secretName m) = Some v \<longrightarrow>
        (\<exists>wasmValue. convertSecretToWASMValue fmtFloat v (wasmType m) = Inr wasmValue)) \<Longrightarrow>
     settled secrets out src \<Longrightarrow>
     inject_matches fmtFloat secrets (FindAllStringSubmatch src) (out @ src) =
       Inr (out @ concat (map (rendered fmtFloat secrets) (segments src)))"
proof (induction src arbitrary: out rule: FindAllStringSubmatch.induct)
  case (1 s)
  show ?case
  proof (cases "match_here s")
    case None
    show ?thesis
    proof (cases s)
      case Nil
      then show ?thesis by (simp add: scan_Nil)
    next
      case (Cons c cs)
      from None Cons have none: "match_here (c # cs) = None" by simp
      from "1.prems"(1) have h: "\<not> prefix ''(import'' (c # cs)" "only_placeholder_imports cs"
        by (simp_all add: Cons scan_plain(3) [OF none])
      from "1.prems"(2) have conv: "\<forall>m \<in> set (FindAllStringSubmatch cs).
          \<forall>v. secrets (secretName m) = Some v \<longrightarrow>
            (\<exists>wasmValue. convertSecretToWASMValue fmtFloat v (wasmType m) = Inr wasmValue)"
        by (simp add: Cons scan_plain(1) [OF none])
      from "1.prems"(3) h(1) have inv: "settled secrets (out @ [c]) cs"
        unfolding Cons by (rule settled_plain)
      from "1.IH"(1) [OF None Cons h(2) conv inv]
      show ?thesis
        by (simp add: Cons scan_plain(1,2) [OF none])
    qed
  next
    case (Some found)
    obtain m rest where found: "found = (m, rest)" by (cases found)
    with Some have here: "match_here s = Some (m, rest)" by simp
    from match_here_text(1) [OF here] have s: "s = fullImport m @ rest" .
    from here s have here': "match_here (fullImport m @ rest) = Some (m, rest)" by simp
    from "1.prems"(1) have h: "\<not> Contains (tl (fullImport m)) ''(import''"
      "only_placeholder_imports rest"
      by (simp_all add: scan_match(3) [OF here])
    from "1.prems"(2) have conv_here: "\<forall>v. secrets (secretName m) = Some v \<longrightarrow>
            (\<exists>wasmValue. convertSecretToWASMValue fmtFloat v (wasmType m) = Inr wasmValue)"
      and conv: "\<forall>m \<in> set (FindAllStringSubmatch rest).
          \<forall>v. secrets (secretName m) = Some v \<longrightarrow>
            (\<exists>wasmValue. convertSecretToWASMValue fmtFloat v (wasmType m) = Inr wasmValue)"
      by (simp_all add: scan_match(1) [OF here])
    from "1.prems"(3) have inv: "settled secrets out (fullImport m @ rest)"
      by (simp add: s [symmetric])
    show ?thesis
    proof (cases "secrets (secretName m)")
      case None
      have "settled secrets (out @ fullImport m) rest"
        using inv here' None declaration_import_free(1) [OF here h(1)]
        by (rule settled_kept)
      from "1.IH"(2) [OF \<open>match_here s = Some found\<close> found [symmetric] h(2) conv this]
      show ?thesis
        using None by (simp add: scan_match(1,2) [OF here] s [symmetric])
    next
      case (Some v)
      from conv_here Some obtain wasmValue where
        lit: "convertSecretToWASMValue fmtFloat v (wasmType m) = Inr wasmValue" by blast
      define new where "new = globalDef (globalName m) (wasmType m) wasmValue"
      have free: "import_free new rest"
        unfolding new_def
        using declaration_import_free(2) [OF here h(1)] match_here_layout(3) [OF here]
          convert_no_paren [OF lit fmt]
        by (rule globalDef_import_free)
      obtain new' where new': "new = CHR ''('' # new'"
        by (simp add: new_def globalDef_def)
      have ne: "fullImport m \<noteq> []"
        using match_here_layout(2) [OF here] by auto
      have replaced: "Replace1 (out @ fullImport m @ rest) (fullImport m) new = out @ new @ rest"
        using ne not_before [OF inv here' Some] by (rule Replace1_first)
      have "settled secrets (out @ new) rest"
        using inv free unfolding new' by (rule settled_replaced)
      from "1.IH"(2) [OF \<open>match_here s = Some found\<close> found [symmetric] h(2) conv this]
      show ?thesis
        using Some lit replaced
        by (simp add: scan_match(1,2) [OF here] s [symmetric] new_def)
    qed
  qed
qed

subsection \<open>Reading the source as segments\<close>

lemma segments_original: "concat (map original (segments s)) = s"
proof (induction s rule: segments.induct)
  case (1 s)
  show ?case
  proof (cases "match_here s")
    case None
    show ?thesis
    proof (cases s)
      case Nil
      then show ?thesis by (simp add: scan_Nil)
    next
      case (Cons c cs)
      with None have none: "match_here (c # cs) = None" by simp
      from "1.IH"(1) [OF None Cons] show ?thesis
        by (simp add: Cons scan_plain(2) [OF none])
    qed
  next
    case (Some found)
    obtain m rest where found: "found = (m, rest)" by (cases found)
    with Some have here: "match_here s = Some (m, rest)" by simp
    have "concat (map original (segments s)) = fullImport m @ concat (map original (segments rest))"
      by (simp add: scan_match(2) [OF here])
    also have "\<dots> = fullImport m @ rest"
      using "1.IH"(2) [OF Some found [symmetric]] by simp
    also have "\<dots> = s"
      using match_here_text(1) [OF here] by simp
    finally show ?thesis .
  qed
qed

lemma segments_declarations:
  "FindAllStringSubmatch s = concat (map (\<lambda>seg. case seg of Plain c \<Rightarrow> [] | Declaration m \<Rightarrow> [m]) (segments s))"
proof (induction s rule: segments.induct)
  case (1 s)
  show ?case
  proof (cases "match_here s")
    case None
    show ?thesis
    proof (cases s)
      case Nil
      then show ?thesis by (simp add: scan_Nil)
    next
      case (Cons c cs)
      with None have none: "match_here (c # cs) = None" by simp
      from "1.IH"(1) [OF None Cons] show ?thesis
        by (simp add: Cons scan_plain(1,2) [OF none])
    qed
  next
    case (Some found)
    obtain m rest where found: "found = (m, rest)" by (cases found)
    with Some have here: "match_here s = Some (m, rest)" by simp
    from "1.IH"(2) [OF Some found [symmetric]] show ?thesis
      by (simp add: scan_match(1,2) [OF here])
  qed
qed

lemma Declaration_found:
  "Declaration m \<in> set (segments s) \<longleftrightarrow> m \<in> set (FindAllStringSubmatch s)"
  unfolding segments_declarations [of s]
  by (induction "segments s" arbitrary: s) (auto split: segment.splits)

lemma settled_start: "settled secrets [] src"
  by (simp add: settled_def)

lemma inject_in_place:
  assumes "only_placeholder_imports watCode"
    and "\<forall>v t. fmtFloat v = Some t \<longrightarrow> CHR ''('' \<notin> set t"
    and "\<forall>m \<in> set (FindAllStringSubmatch watCode). \<forall>v. secrets (secretName m) = Some v \<longrightarrow>
          (\<exists>wasmValue. convertSecretToWASMValue fmtFloat v (wasmType m) = Inr wasmValue)"
  shows "injectSecretsIntoWAT fmtFloat watCode secrets =
           Inr (concat (map (rendered fmtFloat secrets) (segments watCode)))"
  using inject_matches_in_place [OF assms(2) assms(1) assms(3) settled_start]
  by (simp add: injectSecretsIntoWAT_def)

text \<open>The loop looks a secret up only under the names of the declarations it found.\<close>

lemma inject_matches_cong:
  assumes "\<forall>m \<in> set ms. secrets' (secretName m) = secrets (secretName m)"
  shows "inject_matches fmtFloat secrets' ms result = inject_matches fmtFloat secrets ms result"
  using assms
  by (induction ms arbitrary: result) (auto split: option.splits sum.splits)

lemma inject_matches_unused:
  assumes "\<forall>m \<in> set ms. secrets (secretName m) = None"
  shows "inject_matches fmtFloat secrets ms result = Inr result"
  using assms by (induction ms arbitrary: result) auto

subsection \<open>The declarations left in the output\<close>

lemma match_here_import: "match_here s = Some found \<Longrightarrow> prefix ''(import'' s"
proof -
  assume a: "match_here s = Some found"
  obtain m rest where "found = (m, rest)" by (cases found)
  with a have here: "match_here s = Some (m, rest)" by simp
  from match_here_layout(2) [OF here] match_here_text(1) [OF here]
  show ?thesis by (metis prefix_prefix)
qed

lemma segments_import_free:
  "import_free t x \<Longrightarrow> segments (t @ x) = map Plain t @ segments x"
proof (induction t)
  case Nil
  then show ?case by simp
next
  case (Cons c t)
  then have no: "\<not> prefix ''(import'' (c # t @ x)" and rest: "import_free t x"
    by (simp_all add: import_free_Cons)
  from no have "match_here (c # t @ x) = None"
    using match_here_import [of "c # t @ x"] by (cases "match_here (c # t @ x)") auto
  then have "segments (c # t @ x) = Plain c # segments (t @ x)"
    by (rule scan_plain(2))
  with Cons.IH [OF rest] show ?case by simp
qed

lemma rendered_starts_paren:
  assumes "match_here s = Some (m, rest)"
  shows "\<exists>tl'. rendered fmtFloat secrets (Declaration m) = CHR ''('' # tl'"
proof -
  from match_here_layout(2) [OF assms] obtain tl' where "fullImport m = CHR ''('' # tl'"
    by (auto simp: prefix_def)
  then show ?thesis
    by (auto simp: globalDef_def split: option.splits sum.splits)
qed

lemma prefix_output:
  "prefix p (concat (map (rendered fmtFloat secrets) (segments s))) \<Longrightarrow> CHR ''('' \<notin> set p \<Longrightarrow>
   prefix p s"
proof (induction p arbitrary: s)
  case Nil
  then show ?case by simp
next
  case (Cons x p)
  show ?case
  proof (cases "match_here s")
    case None
    show ?thesis
    proof (cases s)
      case Nil
      with Cons.prems show ?thesis by (simp add: scan_Nil)
    next
      case (Cons c cs)
      with None have none: "match_here (c # cs) = None" by simp
      from Cons.prems(1) have "x = c"
        and "prefix p (concat (map (rendered fmtFloat secrets) (segments cs)))"
        by (simp_all add: Cons scan_plain(2) [OF none])
      with Cons.IH [of cs] Cons.prems(2) show ?thesis
        by (simp add: Cons)
    qed
  next
    case (Some found)
    obtain m rest where found: "found = (m, rest)" by (cases found)
    with Some have here: "match_here s = Some (m, rest)" by simp
    from rendered_starts_paren [OF here, of fmtFloat secrets] obtain tl' where
      "rendered fmtFloat secrets (Declaration m) = CHR ''('' # tl'" by blast
    with Cons.prems(1) have "x = CHR ''(''"
      by (simp add: scan_match(2) [OF here])
    with Cons.prems(2) show ?thesis by simp
  qed
qed

lemma segments_output:
  assumes fmt: "\<forall>v t. fmtFloat v = Some t \<longrightarrow> CHR ''('' \<notin> set t"
  shows "only_placeholder_imports s \<Longrightarrow>
     (\<forall>m \<in> set (FindAllStringSubmatch s). \<forall>v. secrets (secretName m) = Some v \<longrightarrow>
        (\<exists>wasmValue. convertSecretToWASMValue fmtFloat v (wasmType m) = Inr wasmValue)) \<Longrightarrow>
     segments (concat (map (rendered fmtFloat secrets) (segments s))) =
       concat (map (output_segments fmtFloat secrets) (segments s))"
proof (induction s rule: segments.induct)
  case (1 s)
  let ?out = "\<lambda>s. concat (map (rendered fmtFloat secrets) (segments s))"
  show ?case
  proof (cases "match_here s")
    case None
    show ?thesis
    proof (cases s)
      case Nil
      then show ?thesis by (simp add: scan_Nil)
    next
      case (Cons c cs)
      with None have none: "match_here (c # cs) = None" by simp
      from "1.prems"(1) have h: "\<not> prefix ''(import'' (c # cs)" "only_placeholder_imports cs"
        by (simp_all add: Cons scan_plain(3) [OF none])
      from "1.prems"(2) have conv: "\<forall>m \<in> set (FindAllStringSubmatch cs).
          \<forall>v. secrets (secretName m) = Some v \<longrightarrow>
            (\<exists>wasmValue. convertSecretToWASMValue fmtFloat v (wasmType m) = Inr wasmValue)"
        by (simp add: Cons scan_plain(1) [OF none])
      have "\<not> prefix ''(import'' (c # ?out cs)"
      proof
        assume "prefix ''(import'' (c # ?out cs)"
        then have c: "c = CHR ''(''" and out: "prefix ''import'' (?out cs)" by simp_all
        from out have "prefix ''import'' cs"
          by (rule prefix_output [of _ fmtFloat secrets]) simp
        with c h(1) show False by simp
      qed
      then have "match_here (c # ?out cs) = None"
        using match_here_import [of "c # ?out cs"] by (cases "match_here (c # ?out cs)") auto
      then have "segments (c # ?out cs) = Plain c # segments (?out cs)"
        by (rule scan_plain(2))
      with "1.IH"(1) [OF None Cons h(2) conv] show ?thesis
        by (simp add: Cons scan_plain(2) [OF none])
    qed
  next
    case (Some found)
    obtain m rest where found: "found = (m, rest)" by (cases found)
    with Some have here: "match_here s = Some (m, rest)" by simp
    from "1.prems"(1) have h: "\<not> Contains (tl (fullImport m)) ''(import''"
      "only_placeholder_imports rest"
      by (simp_all add: scan_match(3) [OF here])
    from "1.prems"(2) have conv_here: "\<forall>v. secrets (secretName m) = Some v \<longrightarrow>
            (\<exists>wasmValue. convertSecretToWASMValue fmtFloat v (wasmType m) = Inr wasmValue)"
      and conv: "\<forall>m \<in> set (FindAllStringSubmatch rest).
          \<forall>v. secrets (secretName m) = Some v \<longrightarrow>
            (\<exists>wasmValue. convertSecretToWASMValue fmtFloat v (wasmType m) = Inr wasmValue)"
      by (simp_all add: scan_match(1) [OF here])
    note ih = "1.IH"(2) [OF Some found [symmetric] h(2) conv]
    show ?thesis
    proof (cases "secrets (secretName m)")
      case None
      have "match_here (fullImport m @ ?out rest) = Some (m, ?out rest)"
        by (rule match_here_text(2) [OF here])
      then have "segments (fullImport m @ ?out rest) = Declaration m # segments (?out rest)"
        by (rule scan_match(2))
      with ih None show ?thesis
        by (simp add: scan_match(2) [OF here])
    next
      case (Some v)
      from conv_here Some obtain wasmValue where
        lit: "convertSecretToWASMValue fmtFloat v (wasmType m) = Inr wasmValue" by blast
      define new where "new = globalDef (globalName m) (wasmType m) wasmValue"
      have "import_free new (?out rest)"
        unfolding new_def
        using declaration_import_free(2) [OF here h(1)] match_here_layout(3) [OF here]
          convert_no_paren [OF lit fmt]
        by (rule globalDef_import_free)
      then have "segments (new @ ?out rest) = map Plain new @ segments (?out rest)"
        by (rule segments_import_free)
      with ih Some lit show ?thesis
        by (simp add: scan_match(2) [OF here] new_def)
    qed
  qed
qed

lemma declarations_output:
  "concat (map (\<lambda>seg. case seg of Plain c \<Rightarrow> [] | Declaration m \<Rightarrow> [m])
      (concat (map (output_segments fmtFloat secrets) segs))) =
   filter (\<lambda>m. secrets (secretName m) = None)
     (concat (map (\<lambda>seg. case seg of Plain c \<Rightarrow> [] | Declaration m \<Rightarrow> [m]) segs))"
proof (induction segs)
  case Nil
  then show ?case by simp
next
  case (Cons seg segs)
  have plain: "concat (map (\<lambda>seg. case seg of Plain c \<Rightarrow> [] | Declaration m \<Rightarrow> [m]) (map Plain t)) = []"
    for t :: string
    by (induction t) simp_all
  show ?case
    using Cons.IH by (cases seg) (simp_all add: plain)
qed

lemma FindAll_output:
  assumes "only_placeholder_imports watCode"
    and "\<forall>v t. fmtFloat v = Some t \<longrightarrow> CHR ''('' \<notin> set t"
    and "\<forall>m \<in> set (FindAllStringSubmatch watCode). \<forall>v. secrets (secretName m) = Some v \<longrightarrow>
          (\<exists>wasmValue. convertSecretToWASMValue fmtFloat v (wasmType m) = Inr wasmValue)"
  shows "FindAllStringSubmatch (concat (map (rendered fmtFloat secrets) (segments watCode))) =
           filter (\<lambda>m. secrets (secretName m) = None) (FindAllStringSubmatch watCode)"
  unfolding segments_declarations [of "concat (map (rendered fmtFloat secrets) (segments watCode))"]
    segments_output [OF assms(2) assms(1) assms(3)] declarations_output
  by (simp add: segments_declarations [of watCode])

subsection \<open>inject against its contract\<close>

lemma convert_numbers:
  "convertSecretToWASMValue fmtFloat ''5'' ''i32'' = Inr ''5''"
  "convertSecretToWASMValue fmtFloat ''12'' ''i64'' = Inr ''12''"
  by (simp_all add: convertSecretToWASMValue_def parse_eval show_eval)

lemma overlap_source_matches:
  \<open>FindAllStringSubmatch overlap_source =
     [\<lparr>fullImport = ''(import "x(import " " " (global $id i32))'', secretName = '' '',
        globalName = ''id'', wasmType = ''i32''\<rparr>,
      \<lparr>fullImport = ''(import " " " (global $id i32)) junk" (global $z i32))'',
        secretName = '' (global $id i32)) junk'', globalName = ''z'', wasmType = ''i32''\<rparr>]\<close>
  unfolding overlap_source_def by code_simp

lemma overlap_source_replace:
  \<open>Replace1 overlap_source ''(import " " " (global $id i32)) junk" (global $z i32))''
       ''(global $z i32 (i32.const 5))'' =
     ''(import "x(global $z i32 (i32.const 5)) (import " " " (global $id i32)) junk" (global $z i32))''\<close>
  unfolding overlap_source_def by code_simp

lemma float_source_matches:
  \<open>FindAllStringSubmatch float_source =
     [\<lparr>fullImport = ''(import "env" "RATE" (global $RATE f32))'', secretName = ''RATE'',
        globalName = ''RATE'', wasmType = ''f32''\<rparr>]\<close>
  unfolding float_source_def by code_simp

text \<open>
  C6, as stated, fails in two ways. A secret for a float placeholder that does not parse
  makes the whole call fail, so nothing is rewritten. And the replacement is made at
  the first occurrence of the declaration's text, which need not be the declaration:
  in \<open>overlap_source\<close> the text of the second declaration also occurs inside the
  first, which has no secret; the call puts the global definition there and leaves the
  declaration that has the secret standing.
\<close>

theorem inject_declaration_not_rewritten:
  \<open>injectSecretsIntoWAT (\<lambda>s. None) float_source [''RATE'' \<mapsto> ''high''] =
     Inl ''failed to convert secret RATE: cannot convert string secret to float type f32'' \<and>
   map secretName (FindAllStringSubmatch overlap_source) = ['' '', '' (global $id i32)) junk''] \<and>
   injectSecretsIntoWAT (\<lambda>s. None) overlap_source ['' (global $id i32)) junk'' \<mapsto> ''5''] =
     Inr (''(import "x(global $z i32 (i32.const 5)) '' @
          ''(import " " " (global $id i32)) junk" (global $z i32))'')\<close>
proof -
  have a: "injectSecretsIntoWAT (\<lambda>s. None) float_source [''RATE'' \<mapsto> ''high''] =
     Inl ''failed to convert secret RATE: cannot convert string secret to float type f32''"
    by (simp add: injectSecretsIntoWAT_def float_source_matches convertSecretToWASMValue_def)
  have b: \<open>injectSecretsIntoWAT (\<lambda>s. None) overlap_source ['' (global $id i32)) junk'' \<mapsto> ''5''] =
     Inr (''(import "x(global $z i32 (i32.const 5)) '' @
          ''(import " " " (global $id i32)) junk" (global $z i32))'')\<close>
    by (simp add: injectSecretsIntoWAT_def overlap_source_matches convert_numbers globalDef_def
        overlap_source_replace [unfolded globalDef_def])
  show ?thesis
    using a b by (simp add: overlap_source_matches)
qed


text \<open>
  C6, amended. Take a source in which the text \<open>(import\<close> occurs only where a
  placeholder declaration starts, a float formatting that yields no parenthesis, and
  secrets such that the coercion succeeds for every declaration whose name has one.
  Then inject succeeds, and its output is the source with every declaration
  \<open>(import "<module>" "<name>" (global $<ident> <k>))\<close> whose name is a key of the
  secrets replaced, where it stands, by \<open>(global $<ident> <k> (<k>.const <literal>))\<close>
  with the coerced literal, and everything else as it was; the declarations found in
  the output are exactly the ones without a secret, so every declaration with a
  secret is gone, also when the same declaration is repeated.
\<close>

theorem inject_rewrites_in_place:
  assumes "only_placeholder_imports watCode"
    and "\<forall>v t. fmtFloat v = Some t \<longrightarrow> CHR ''('' \<notin> set t"
    and "\<forall>m \<in> set (FindAllStringSubmatch watCode). \<forall>v. secrets (secretName m) = Some v \<longrightarrow>
          (\<exists>wasmValue. convertSecretToWASMValue fmtFloat v (wasmType m) = Inr wasmValue)"
  shows "injectSecretsIntoWAT fmtFloat watCode secrets =
           Inr (concat (map (rendered fmtFloat secrets) (segments watCode))) \<and>
         concat (map original (segments watCode)) = watCode \<and>
         (\<forall>m v wasmValue.
            Declaration m \<in> set (segments watCode) \<and> secrets (secretName m) = Some v \<and>
            convertSecretToWASMValue fmtFloat v (wasmType m) = Inr wasmValue \<longrightarrow>
              rendered fmtFloat secrets (Declaration m) =
                ''(global $'' @ globalName m @ '' '' @ wasmType m @ '' ('' @ wasmType m
                  @ ''.const '' @ wasmValue @ ''))'') \<and>
         FindAllStringSubmatch (concat (map (rendered fmtFloat secrets) (segments watCode))) =
           filter (\<lambda>m. secrets (secretName m) = None) (FindAllStringSubmatch watCode)"
proof -
  have "injectSecretsIntoWAT fmtFloat watCode secrets =
           Inr (concat (map (rendered fmtFloat secrets) (segments watCode)))"
    using assms by (rule inject_in_place)
  moreover have "concat (map original (segments watCode)) = watCode"
    by (rule segments_original)
  moreover have "rendered fmtFloat secrets (Declaration m) =
      ''(global $'' @ globalName m @ '' '' @ wasmType m @ '' ('' @ wasmType m
        @ ''.const '' @ wasmValue @ ''))''"
    if "secrets (secretName m) = Some v"
      "convertSecretToWASMValue fmtFloat v (wasmType m) = Inr wasmValue" for m v wasmValue
    using that by (simp add: globalDef_def)
  moreover have "FindAllStringSubmatch (concat (map (rendered fmtFloat secrets) (segments watCode))) =
           filter (\<lambda>m. secrets (secretName m) = None) (FindAllStringSubmatch watCode)"
    using assms by (rule FindAll_output)
  ultimately show ?thesis by blast
qed

lemma template_source_matches:
  \<open>FindAllStringSubmatch template_source =
     [\<lparr>fullImport = ''(import "env" "K" (global $K i32))'', secretName = ''K'',
        globalName = ''K'', wasmType = ''i32''\<rparr>,
      \<lparr>fullImport = ''(import "env" "L" (global $L i64))'', secretName = ''L'',
        globalName = ''L'', wasmType = ''i64''\<rparr>]\<close>
  unfolding template_source_def by code_simp

lemma template_source_imports: "only_placeholder_imports template_source"
  unfolding template_source_def by code_simp

lemma template_source_segments:
  \<open>segments template_source =
     map Plain ''(module '' @
     [Declaration \<lparr>fullImport = ''(import "env" "K" (global $K i32))'', secretName = ''K'',
        globalName = ''K'', wasmType = ''i32''\<rparr>] @
     map Plain '' (func) '' @
     [Declaration \<lparr>fullImport = ''(import "env" "L" (global $L i64))'', secretName = ''L'',
        globalName = ''L'', wasmType = ''i64''\<rparr>] @
     map Plain '')''\<close>
  unfolding template_source_def by code_simp

text \<open>
  The amended C6 on a module with two placeholders, one of which has a secret: the
  first becomes a global definition and the second is the only declaration left.
\<close>

theorem inject_rewrites_in_place_witness:
  \<open>only_placeholder_imports template_source \<and>
   injectSecretsIntoWAT (\<lambda>s. None) template_source [''K'' \<mapsto> ''5''] =
     Inr ''(module (global $K i32 (i32.const 5)) (func) (import "env" "L" (global $L i64)))'' \<and>
   map secretName
     (FindAllStringSubmatch
        ''(module (global $K i32 (i32.const 5)) (func) (import "env" "L" (global $L i64)))'') =
     [''L'']\<close>
proof -
  have fmt: "\<forall>v t. (\<lambda>s. None) v = Some t \<longrightarrow> CHR ''('' \<notin> set t"
    by simp
  have conv: "\<forall>m \<in> set (FindAllStringSubmatch template_source).
      \<forall>v. [''K'' \<mapsto> ''5''] (secretName m) = Some v \<longrightarrow>
        (\<exists>wasmValue. convertSecretToWASMValue (\<lambda>s. None) v (wasmType m) = Inr wasmValue)"
    by (simp add: template_source_matches convert_numbers)
  have out: \<open>concat (map (rendered (\<lambda>s. None) [''K'' \<mapsto> ''5'']) (segments template_source)) =
      ''(module (global $K i32 (i32.const 5)) (func) (import "env" "L" (global $L i64)))''\<close>
    by (simp add: template_source_segments convert_numbers globalDef_def)
  note all = inject_rewrites_in_place [OF template_source_imports fmt conv, unfolded out]
  from all have run: \<open>injectSecretsIntoWAT (\<lambda>s. None) template_source [''K'' \<mapsto> ''5''] =
     Inr ''(module (global $K i32 (i32.const 5)) (func) (import "env" "L" (global $L i64)))''\<close>
    by (rule conjunct1)
  from all have left: \<open>FindAllStringSubmatch
        ''(module (global $K i32 (i32.const 5)) (func) (import "env" "L" (global $L i64)))'' =
      filter (\<lambda>m. [''K'' \<mapsto> ''5''] (secretName m) = None) (FindAllStringSubmatch template_source)\<close>
    by blast
  show ?thesis
    unfolding run left using template_source_imports by (simp add: template_source_matches)
qed

lemma overlap_module_matches:
  \<open>FindAllStringSubmatch overlap_module =
     [\<lparr>fullImport = ''(import "m(import " "  " (global $a i64))'', secretName = ''  '',
        globalName = ''a'', wasmType = ''i64''\<rparr>,
      \<lparr>fullImport = ''(import " "  " (global $a i64)) tail" (global $b i64))'',
        secretName = '' (global $a i64)) tail'', globalName = ''b'', wasmType = ''i64''\<rparr>]\<close>
  unfolding overlap_module_def by code_simp

lemma overlap_module_replace:
  \<open>Replace1 overlap_module ''(import " "  " (global $a i64)) tail" (global $b i64))''
       ''(global $b i64 (i64.const 12))'' =
     ''(module (import "m(global $b i64 (i64.const 12)) (import " "  " (global $a i64)) tail" (global $b i64)))''\<close>
  unfolding overlap_module_def by code_simp

lemma overlap_module_lost:
  \<open>\<not> Contains
      ''(module (import "m(global $b i64 (i64.const 12)) (import " "  " (global $a i64)) tail" (global $b i64)))''
      ''(import "m(import " "  " (global $a i64))''\<close>
  by code_simp

text \<open>
  C7, as stated, fails. In \<open>overlap_module\<close> the first declaration has the name of two
  blanks, for which there is no secret, and the text of the second declaration, which
  has one, occurs inside the first. The replacement is made at that first occurrence:
  the output no longer contains the declaration without a secret.
\<close>

theorem inject_changes_declaration_without_secret:
  \<open>map secretName (FindAllStringSubmatch overlap_module) = [''  '', '' (global $a i64)) tail''] \<and>
   map fullImport (FindAllStringSubmatch overlap_module) ! 0 =
     ''(import "m(import " "  " (global $a i64))'' \<and>
   ['' (global $a i64)) tail'' \<mapsto> ''12''] ''  '' = None \<and>
   injectSecretsIntoWAT (\<lambda>s. None) overlap_module ['' (global $a i64)) tail'' \<mapsto> ''12''] =
     Inr ''(module (import "m(global $b i64 (i64.const 12)) (import " "  " (global $a i64)) tail" (global $b i64)))'' \<and>
   \<not> Contains
      ''(module (import "m(global $b i64 (i64.const 12)) (import " "  " (global $a i64)) tail" (global $b i64)))''
      ''(import "m(import " "  " (global $a i64))''\<close>
proof -
  have run: \<open>injectSecretsIntoWAT (\<lambda>s. None) overlap_module ['' (global $a i64)) tail'' \<mapsto> ''12''] =
     Inr ''(module (import "m(global $b i64 (i64.const 12)) (import " "  " (global $a i64)) tail" (global $b i64)))''\<close>
    by (simp add: injectSecretsIntoWAT_def overlap_module_matches convert_numbers globalDef_def
        overlap_module_replace [unfolded globalDef_def])
  show ?thesis
    using run overlap_module_lost by (simp add: overlap_module_matches)
qed

text \<open>
  C7, amended. The result of inject depends on the secrets only under the names of the
  declarations found, so entries that no declaration refers to change nothing and
  cause no error. When no declaration found has a secret (in particular when the
  source has no placeholder import) inject succeeds and returns the source unchanged.
  When some have one, and the text \<open>(import\<close> occurs in the source only where a
  placeholder declaration starts, the float formatting yields no parenthesis and the
  coercions succeed, then the output is the source cut into its segments with every
  declaration without a secret, and all text between the declarations, left as it was.
\<close>

theorem inject_leaves_the_rest:
  "(\<forall>secrets'. (\<forall>m \<in> set (FindAllStringSubmatch watCode).
        secrets' (secretName m) = secrets (secretName m)) \<longrightarrow>
      injectSecretsIntoWAT fmtFloat watCode secrets' = injectSecretsIntoWAT fmtFloat watCode secrets) \<and>
   ((\<forall>m \<in> set (FindAllStringSubmatch watCode). secrets (secretName m) = None) \<longrightarrow>
      injectSecretsIntoWAT fmtFloat watCode secrets = Inr watCode) \<and>
   (FindAllStringSubmatch watCode = [] \<longrightarrow>
      injectSecretsIntoWAT fmtFloat watCode secrets = Inr watCode) \<and>
   (only_placeholder_imports watCode \<and>
    (\<forall>v t. fmtFloat v = Some t \<longrightarrow> CHR ''('' \<notin> set t) \<and>
    (\<forall>m \<in> set (FindAllStringSubmatch watCode). \<forall>v. secrets (secretName m) = Some v \<longrightarrow>
          (\<exists>wasmValue. convertSecretToWASMValue fmtFloat v (wasmType m) = Inr wasmValue)) \<longrightarrow>
      (\<exists>pieces. injectSecretsIntoWAT fmtFloat watCode secrets = Inr (concat pieces) \<and>
         watCode = concat (map original (segments watCode)) \<and>
         list_all2 (\<lambda>seg piece. kept secrets seg \<longrightarrow> piece = original seg)
           (segments watCode) pieces))"
proof -
  have same: "injectSecretsIntoWAT fmtFloat watCode secrets' = injectSecretsIntoWAT fmtFloat watCode secrets"
    if "\<forall>m \<in> set (FindAllStringSubmatch watCode). secrets' (secretName m) = secrets (secretName m)"
    for secrets'
    using that by (simp add: injectSecretsIntoWAT_def inject_matches_cong)
  have unused: "injectSecretsIntoWAT fmtFloat watCode secrets = Inr watCode"
    if "\<forall>m \<in> set (FindAllStringSubmatch watCode). secrets (secretName m) = None"
    using that by (simp add: injectSecretsIntoWAT_def inject_matches_unused)
  have plain: "injectSecretsIntoWAT fmtFloat watCode secrets = Inr watCode"
    if "FindAllStringSubmatch watCode = []"
    using that by (simp add: injectSecretsIntoWAT_def)
  have mixed: "\<exists>pieces. injectSecretsIntoWAT fmtFloat watCode secrets = Inr (concat pieces) \<and>
         watCode = concat (map original (segments watCode)) \<and>
         list_all2 (\<lambda>seg piece. kept secrets seg \<longrightarrow> piece = original seg)
           (segments watCode) pieces"
    if h: "only_placeholder_imports watCode"
      "\<forall>v t. fmtFloat v = Some t \<longrightarrow> CHR ''('' \<notin> set t"
      "\<forall>m \<in> set (FindAllStringSubmatch watCode). \<forall>v. secrets (secretName m) = Some v \<longrightarrow>
          (\<exists>wasmValue. convertSecretToWASMValue fmtFloat v (wasmType m) = Inr wasmValue)"
  proof -
    have keep: "kept secrets seg \<longrightarrow> rendered fmtFloat secrets seg = original seg" for seg
      by (cases seg) simp_all
    have "list_all2 (\<lambda>seg piece. kept secrets seg \<longrightarrow> piece = original seg)
           (segments watCode) (map (rendered fmtFloat secrets) (segments watCode))"
      using keep by (simp add: list_all2_map2 list_all2_same)
    moreover have "injectSecretsIntoWAT fmtFloat watCode secrets =
           Inr (concat (map (rendered fmtFloat secrets) (segments watCode)))"
      using h by (rule inject_in_place)
    ultimately show ?thesis
      using segments_original [of watCode] by metis
  qed
  show ?thesis
    using same unused plain mixed by blast
qed

text \<open>
  The amended C7: a module whose only placeholder has no secret, with a secret that
  nothing refers to, and a module with no placeholder at all, both come back unchanged.
\<close>

theorem inject_leaves_the_rest_witness:
  \<open>injectSecretsIntoWAT (\<lambda>s. None) float_source [''UNUSED'' \<mapsto> ''high''] = Inr float_source \<and>
   injectSecretsIntoWAT (\<lambda>s. None) ''(module (func))'' [''UNUSED'' \<mapsto> ''high''] =
     Inr ''(module (func))''\<close>
proof -
  have none: "\<forall>m \<in> set (FindAllStringSubmatch float_source).
      [''UNUSED'' \<mapsto> ''high''] (secretName m) = None"
    by (simp add: float_source_matches)
  have empty: "FindAllStringSubmatch ''(module (func))'' = []"
    by code_simp
  show ?thesis
    using inject_leaves_the_rest [of float_source "[''UNUSED'' \<mapsto> ''high'']" "\<lambda>s. None"]
      inject_leaves_the_rest [of "''(module (func))''" "[''UNUSED'' \<mapsto> ''high'']" "\<lambda>s. None"]
      none empty
    by simp
qed

section \<open>Binary input: properties\<close>

lemma ReplaceAll_byte_empty: "ReplaceAll_byte s old [] = filter (\<lambda>c. c \<noteq> old) s"
  by (induction s) (auto simp: ReplaceAll_byte_def)

lemma hex_digit_bound: "hex_digit c = Some d \<Longrightarrow> d < 16"
  by (auto simp: hex_digit_def Let_def split: if_splits)

lemma ParseUint16_pair:
  "ParseUint16 [c1, c2] 8 = None \<longleftrightarrow> hex_digit c1 = None \<or> hex_digit c2 = None"
proof (cases "hex_digit c1")
  case None
  then show ?thesis by (simp add: ParseUint16_def)
next
  case (Some d1)
  show ?thesis
  proof (cases "hex_digit c2")
    case None
    with Some show ?thesis by (simp add: ParseUint16_def)
  next
    case (Some d2)
    have "d1 < 16" "d2 < 16"
      using \<open>hex_digit c1 = Some d1\<close> Some by (auto dest: hex_digit_bound)
    then have "d1 * 16 + d2 < 256" by simp
    with \<open>hex_digit c1 = Some d1\<close> Some show ?thesis
      by (simp add: ParseUint16_def)
  qed
qed

lemma hex_loop_None:
  "even (length s) \<Longrightarrow> hex_loop s = None \<longleftrightarrow> (\<exists>c \<in> set s. hex_digit c = None)"
proof (induction s rule: hex_loop.induct)
  case (1 c1 c2 cs)
  show ?case
  proof (cases "ParseUint16 [c1, c2] 8")
    case None
    then show ?thesis
      using ParseUint16_pair [of c1 c2] by auto
  next
    case (Some b)
    with 1 have ih: "hex_loop cs = None \<longleftrightarrow> (\<exists>c \<in> set cs. hex_digit c = None)"
      by simp
    from Some have "hex_digit c1 \<noteq> None \<and> hex_digit c2 \<noteq> None"
      using ParseUint16_pair [of c1 c2] by auto
    with Some ih show ?thesis
      by (auto split: option.splits)
  qed
qed simp_all

lemma hex_loop_length: "hex_loop s = Some hexDecoded \<Longrightarrow> length hexDecoded = length s div 2"
  by (induction s arbitrary: hexDecoded rule: hex_loop.induct) (auto split: option.splits)

text \<open>
  C10. Binary decoding removes spaces, newlines and tabs and tries standard base64 on
  what is left; its result stands when it succeeds. When base64 fails, the hexadecimal
  fallback is used only for a cleaned string of even length: if the length is odd or
  some character is no hexadecimal digit (so some pair does not parse), the error
  returned is the base64 error; if the length is even and every character is a
  hexadecimal digit, the bytes of the pairs are returned.
\<close>

theorem base64DecodeWASM_fallback:
  "(let cleaned = filter (\<lambda>c. c \<noteq> CHR 0x20 \<and> c \<noteq> CHR 0x0A \<and> c \<noteq> CHR 0x09) encoded in
      (\<forall>decoded. decode cleaned = Inr decoded \<longrightarrow>
          base64DecodeWASM decode encoded = Inr decoded) \<and>
      (\<forall>err. decode cleaned = Inl err \<longrightarrow>
          (odd (length cleaned) \<or> (\<exists>c \<in> set cleaned. hex_digit c = None) \<longrightarrow>
             base64DecodeWASM decode encoded = Inl err) \<and>
          (even (length cleaned) \<and> (\<forall>c \<in> set cleaned. hex_digit c \<noteq> None) \<longrightarrow>
             (\<exists>hexDecoded. base64DecodeWASM decode encoded = Inr hexDecoded \<and>
                hex_loop cleaned = Some hexDecoded \<and>
                length hexDecoded = length cleaned div 2))))"
proof -
  define cleaned where
    "cleaned = filter (\<lambda>c. c \<noteq> CHR 0x20 \<and> c \<noteq> CHR 0x0A \<and> c \<noteq> CHR 0x09) encoded"
  have strip: "ReplaceAll_byte (ReplaceAll_byte (ReplaceAll_byte encoded (CHR 0x20) []) (CHR 0x0A) [])
                 (CHR 0x09) [] = cleaned"
    by (simp add: cleaned_def ReplaceAll_byte_empty conj_commute conj_left_commute)
  have unfold: "base64DecodeWASM decode encoded =
      (case decode cleaned of
         Inr decoded \<Rightarrow> Inr decoded
       | Inl err \<Rightarrow>
           if length cleaned mod 2 = 0 then
             (case hex_loop cleaned of None \<Rightarrow> Inl err | Some hexDecoded \<Rightarrow> Inr hexDecoded)
           else Inl err)"
    unfolding base64DecodeWASM_def Let_def strip by (simp cong: sum.case_cong)
  have ok: "base64DecodeWASM decode encoded = Inr decoded"
    if "decode cleaned = Inr decoded" for decoded
    using that by (simp add: unfold)
  have bad: "base64DecodeWASM decode encoded = Inl err"
    if "decode cleaned = Inl err"
      and "odd (length cleaned) \<or> (\<exists>c \<in> set cleaned. hex_digit c = None)" for err
  proof (cases "even (length cleaned)")
    case False
    with that(1) show ?thesis
      by (simp add: unfold even_iff_mod_2_eq_zero)
  next
    case True
    with that(2) have "hex_loop cleaned = None"
      by (simp add: hex_loop_None)
    with that(1) show ?thesis
      by (simp add: unfold)
  qed
  have hex: "\<exists>hexDecoded. base64DecodeWASM decode encoded = Inr hexDecoded \<and>
                hex_loop cleaned = Some hexDecoded \<and> length hexDecoded = length cleaned div 2"
    if "decode cleaned = Inl err" and "even (length cleaned)"
      and "\<forall>c \<in> set cleaned. hex_digit c \<noteq> None" for err
  proof -
    from that(2,3) have "hex_loop cleaned \<noteq> None"
      by (simp add: hex_loop_None)
    then obtain hexDecoded where h: "hex_loop cleaned = Some hexDecoded"
      by auto
    with that(1,2) have "base64DecodeWASM decode encoded = Inr hexDecoded"
      by (simp add: unfold even_iff_mod_2_eq_zero)
    with h show ?thesis
      by (simp add: hex_loop_length)
  qed
  show ?thesis
    unfolding Let_def cleaned_def [symmetric] using ok bad hex by blast
qed

text \<open>
  C10 at three inputs on which base64 fails: odd length, a pair that is not
  hexadecimal, and four hexadecimal digits.
\<close>

theorem base64DecodeWASM_fallback_witness:
  "base64DecodeWASM (\<lambda>s. Inl ''illegal base64 data'') ''4 1z'' = Inl ''illegal base64 data'' \<and>
   base64DecodeWASM (\<lambda>s. Inl ''illegal base64 data'') ''4g 1 z'' = Inl ''illegal base64 data'' \<and>
   base64DecodeWASM (\<lambda>s. Inl ''illegal base64 data'') ''4 1 6a'' = Inr ''Aj''"
proof -
  have c1: "filter (\<lambda>c. c \<noteq> CHR 0x20 \<and> c \<noteq> CHR 0x0A \<and> c \<noteq> CHR 0x09) ''4 1z'' = ''41z''"
    by simp
  have c2: "filter (\<lambda>c. c \<noteq> CHR 0x20 \<and> c \<noteq> CHR 0x0A \<and> c \<noteq> CHR 0x09) ''4g 1 z'' = ''4g1z''"
    by simp
  have c3: "filter (\<lambda>c. c \<noteq> CHR 0x20 \<and> c \<noteq> CHR 0x0A \<and> c \<noteq> CHR 0x09) ''4 1 6a'' = ''416a''"
    by simp
  have g: "hex_digit CHR ''g'' = None"
    by (simp add: hex_digit_def byte_def)
  have h3: "hex_loop ''416a'' = Some ''Aj''"
    by code_simp
  have d3: "\<forall>c \<in> set ''416a''. hex_digit c \<noteq> None"
    by (simp add: hex_digit_def byte_def)
  show ?thesis
    using base64DecodeWASM_fallback [of "''4 1z''" "\<lambda>s. Inl ''illegal base64 data''"]
      base64DecodeWASM_fallback [of "''4g 1 z''" "\<lambda>s. Inl ''illegal base64 data''"]
      base64DecodeWASM_fallback [of "''4 1 6a''" "\<lambda>s. Inl ''illegal base64 data''"]
    unfolding Let_def c1 c2 c3 using g h3 d3 by auto
qed

section \<open>Compile bridge: properties\<close>

lemma compile_trace_cases:
  "snd (snd (compileWATToWASM tc fs watCode)) \<in>
     {[SysWriteFile ''/tmp/temp.wat'' watCode],
      [SysWriteFile ''/tmp/temp.wat'' watCode,
       SysExec ''wat2wasm'' [''/tmp/temp.wat'', ''-o'', ''/tmp/temp.wasm''],
       SysRemove ''/tmp/temp.wat''],
      [SysWriteFile ''/tmp/temp.wat'' watCode,
       SysExec ''wat2wasm'' [''/tmp/temp.wat'', ''-o'', ''/tmp/temp.wasm''],
       SysReadFile ''/tmp/temp.wasm'', SysRemove ''/tmp/temp.wasm'',
       SysRemove ''/tmp/temp.wat'']}"
  by (simp add: compileWATToWASM_def Let_def split: option.splits prod.splits)

text \<open>
  C4, as stated, fails: two invocations on different texts write their text to the same
  path and use the same set of paths.
\<close>

theorem compile_paths_not_unique:
  "(\<exists>rest. snd (snd (compileWATToWASM demo_toolchain Map.empty ''(module)''))
             = SysWriteFile ''/tmp/temp.wat'' ''(module)'' # rest) \<and>
   (\<exists>rest. snd (snd (compileWATToWASM demo_toolchain Map.empty ''(module (func))''))
             = SysWriteFile ''/tmp/temp.wat'' ''(module (func))'' # rest) \<and>
   paths_used (snd (snd (compileWATToWASM demo_toolchain Map.empty ''(module)'')))
     = paths_used (snd (snd (compileWATToWASM demo_toolchain Map.empty ''(module (func))'')))"
  by (simp add: compileWATToWASM_def demo_toolchain_def Let_def paths_used_def)

text \<open>
  C4, amended. Every compilation, whatever the text, the file system and the behaviour
  of the operating system and of the compiler, first writes the text to the fixed path
  \<open>/tmp/temp.wat\<close> and names no path but \<open>/tmp/temp.wat\<close> and \<open>/tmp/temp.wasm\<close>;
  when the write succeeds the compiler is run from the first to the second, and the
  source path is removed when the call returns. The paths are the same for every
  invocation.
\<close>

theorem compile_fixed_paths:
  "(\<exists>rest. snd (snd (compileWATToWASM tc fs watCode))
             = SysWriteFile ''/tmp/temp.wat'' watCode # rest) \<and>
   paths_used (snd (snd (compileWATToWASM tc fs watCode)))
     \<subseteq> {''/tmp/temp.wat'', ''/tmp/temp.wasm''} \<and>
   (WriteFile_error tc ''/tmp/temp.wat'' = None \<longrightarrow>
      SysExec ''wat2wasm'' [''/tmp/temp.wat'', ''-o'', ''/tmp/temp.wasm'']
        \<in> set (snd (snd (compileWATToWASM tc fs watCode))) \<and>
      fst (snd (compileWATToWASM tc fs watCode)) ''/tmp/temp.wat'' = None)"
proof -
  have first: "\<exists>rest. snd (snd (compileWATToWASM tc fs watCode))
             = SysWriteFile ''/tmp/temp.wat'' watCode # rest"
    using compile_trace_cases [of tc fs watCode] by auto
  have paths: "paths_used (snd (snd (compileWATToWASM tc fs watCode)))
     \<subseteq> {''/tmp/temp.wat'', ''/tmp/temp.wasm''}"
    using compile_trace_cases [of tc fs watCode] by (auto simp: paths_used_def)
  have run: "SysExec ''wat2wasm'' [''/tmp/temp.wat'', ''-o'', ''/tmp/temp.wasm'']
        \<in> set (snd (snd (compileWATToWASM tc fs watCode))) \<and>
      fst (snd (compileWATToWASM tc fs watCode)) ''/tmp/temp.wat'' = None"
    if "WriteFile_error tc ''/tmp/temp.wat'' = None"
    using that by (simp add: compileWATToWASM_def Let_def split: option.splits prod.splits)
  show ?thesis
    using first paths run by blast
qed

text \<open>The amended C4 on a toolchain whose write succeeds.\<close>

theorem compile_fixed_paths_witness:
  "WriteFile_error demo_toolchain ''/tmp/temp.wat'' = None \<and>
   SysExec ''wat2wasm'' [''/tmp/temp.wat'', ''-o'', ''/tmp/temp.wasm'']
     \<in> set (snd (snd (compileWATToWASM demo_toolchain Map.empty ''(module)''))) \<and>
   fst (compileWATToWASM demo_toolchain Map.empty ''(module)'') = Inr ''OK''"
proof -
  have w: "WriteFile_error demo_toolchain ''/tmp/temp.wat'' = None"
    by (simp add: demo_toolchain_def)
  have r: "fst (compileWATToWASM demo_toolchain Map.empty ''(module)'') = Inr ''OK''"
    by (simp add: compileWATToWASM_def demo_toolchain_def Let_def)
  show ?thesis
    using compile_fixed_paths [of demo_toolchain Map.empty "''(module)''"] w r by simp
qed

section \<open>Execution: properties\<close>

subsection \<open>One execution\<close>







subsection \<open>The loop\<close>








subsection \<open>Concrete runs\<close>









section \<open>Relay: properties\<close>

subsection \<open>The channel after an I/O error\<close>

text \<open>
  C3, as stated, fails. A service connected on connection 3 forwards a request, the
  write to the channel fails, and the service is still marked connected on connection
  3; the next request dials nothing and is forwarded on connection 3 again.
\<close>

theorem channel_stays_connected_after_io_error:
  "serve_request \<lparr>enclaveConn = Some 3, enclaveConnected = True\<rparr> (Inr 4)
       (SendFails ''broken pipe'') (demo_request ''square'' [7])
     = (\<lparr>Result = 0,
         Error = ''Enclave communication error: failed to send request to enclave: broken pipe''\<rparr>,
        \<lparr>enclaveConn = Some 3, enclaveConnected = True\<rparr>, [UsedChannel 3]) \<and>
   snd (snd (serve_request \<lparr>enclaveConn = Some 3, enclaveConnected = True\<rparr> (Inr 4)
               (ReceiveFails ''EOF'') (demo_request ''square'' [7])))
     = [UsedChannel 3]"
  by (simp add: serve_request_def forwardToEnclave_def)

text \<open>
  C3, amended. An I/O error while writing a request to or reading a response from an
  established channel is reported to the client as an enclave communication error with
  result 0 and leaves the channel's state as it was: still connected, on the same
  connection. The next request therefore makes no connect attempt and uses the same
  connection, whatever happens on it. A connect attempt is made exactly while the
  service is not connected: a successful one connects it, a failed one leaves it
  disconnected, so that the next request tries again.
\<close>

theorem io_error_leaves_channel_state:
  "(enclaveConnected h \<and> enclaveConn h = Some c \<and>
      (channel = SendFails err \<or> channel = ReceiveFails err) \<longrightarrow>
        snd (serve_request h dial channel req) = (h, [UsedChannel c]) \<and>
        Result (fst (serve_request h dial channel req)) = 0 \<and>
        prefix ''Enclave communication error: '' (Error (fst (serve_request h dial channel req))) \<and>
        snd (serve_request h dial' channel' req') = (h, [UsedChannel c])) \<and>
   (\<not> enclaveConnected h \<longrightarrow>
        (\<forall>c'. dial = Inr c' \<longrightarrow>
           snd (serve_request h dial channel req)
             = (h\<lparr>enclaveConn := Some c', enclaveConnected := True\<rparr>, [Dialed, UsedChannel c'])) \<and>
        (\<forall>e. dial = Inl e \<longrightarrow>
           serve_request h dial channel req
             = (\<lparr>Result = 0,
                 Error = ''Could not connect to enclave: failed to connect to enclave: '' @ e\<rparr>,
                h, [Dialed])))"
  by (auto simp: serve_request_def forwardToEnclave_def connectToEnclave_def Let_def
      split: exchange.splits)

text \<open>The amended C3 on a connected service whose read fails, and on a fresh service.\<close>

theorem io_error_leaves_channel_state_witness:
  "snd (serve_request \<lparr>enclaveConn = Some 3, enclaveConnected = True\<rparr> (Inr 4)
          (ReceiveFails ''EOF'') (demo_request ''square'' [7]))
     = (\<lparr>enclaveConn = Some 3, enclaveConnected = True\<rparr>, [UsedChannel 3]) \<and>
   snd (serve_request \<lparr>enclaveConn = Some 3, enclaveConnected = True\<rparr> (Inr 4)
          (Replies \<lparr>Result = 49, Error = []\<rparr>) (demo_request ''square'' [7]))
     = (\<lparr>enclaveConn = Some 3, enclaveConnected = True\<rparr>, [UsedChannel 3]) \<and>
   snd (serve_request NewHostService (Inr 4) (Replies \<lparr>Result = 49, Error = []\<rparr>)
          (demo_request ''square'' [7]))
     = (\<lparr>enclaveConn = Some 4, enclaveConnected = True\<rparr>, [Dialed, UsedChannel 4])"
proof -
  have connected: "enclaveConnected \<lparr>enclaveConn = Some 3, enclaveConnected = True\<rparr> \<and>
      enclaveConn \<lparr>enclaveConn = Some 3, enclaveConnected = True\<rparr> = Some 3 \<and>
      (ReceiveFails ''EOF'' = SendFails ''EOF'' \<or> ReceiveFails ''EOF'' = ReceiveFails ''EOF'')"
    by simp
  have fresh: "\<not> enclaveConnected NewHostService"
    by (simp add: NewHostService_def)
  show ?thesis
    using connected fresh
      io_error_leaves_channel_state
        [of "\<lparr>enclaveConn = Some 3, enclaveConnected = True\<rparr>" 3 "ReceiveFails ''EOF''" "''EOF''"
            "Inr 4" "demo_request ''square'' [7]" "Inr 4" "Replies \<lparr>Result = 49, Error = []\<rparr>"
            "demo_request ''square'' [7]"]
      io_error_leaves_channel_state
        [of NewHostService 0 "Replies \<lparr>Result = 49, Error = []\<rparr>" "[]"
            "Inr 4" "demo_request ''square'' [7]"]
    by (simp add: NewHostService_def)
qed

subsection \<open>Two clients on the shared channel\<close>

lemma demo_externals_return:
  "fst (ExecuteWASM demo_externals fs wasmCode name args secrets) \<noteq> None"
  by (auto simp: ExecuteWASM_def run_module_def demo_externals_def demo_engine_def
      split: prod.splits sum.splits list.splits)

lemma demo_answer_square:
  "demo_answer (demo_request ''square'' [x]) = \<lparr>Result = x * x, Error = []\<rparr>"
proof -
  have wat: "isWATText ''(module)''"
    by (simp add: isWATText_def)
  have bytes: "module_bytes demo_externals fs ''(module)'' Map.empty
                 = (Inr ''OK'', (fs(''/tmp/temp.wat'' \<mapsto> ''(module)''))
                      (''/tmp/temp.wasm'' := None, ''/tmp/temp.wat'' := None))" for fs
    by (simp add: module_bytes_def wat compileWATToWASM_def demo_externals_def
        demo_toolchain_def Let_def)
  have run: "run_module demo_engine ''OK'' ''square'' [x] = Some (x * x, None)"
    by (simp add: run_module_def demo_engine_def)
  have eng: "engine demo_externals = demo_engine"
    by (simp add: demo_externals_def)
  show ?thesis
    by (simp add: demo_answer_def demo_request_def ExecuteWASM_def bytes run eng
        make_response_def)
qed

text \<open>
  C1. No client may receive the response to another client's request. Two clients ask
  for \<open>square(7)\<close> and \<open>square(3)\<close>. Both tasks take the read lock, the second sends
  first, the enclave answers both in the order it received them, and the first task then
  decodes the oldest response: the client that asked for \<open>square(7)\<close> gets 9.
\<close>

theorem shared_channel_mixes_responses:
  "relay_run demo_answer [Task 0, Task 1, Task 1, Task 0, Enclave, Enclave, Task 0, Task 1]
      (relay_start [demo_request ''square'' [7], demo_request ''square'' [3]])
     = Some \<lparr>readers = 0, writer = False, to_enclave = [], from_enclave = [],
             tasks = [Finished (demo_request ''square'' [7]) \<lparr>Result = 9, Error = []\<rparr>,
                      Finished (demo_request ''square'' [3]) \<lparr>Result = 49, Error = []\<rparr>]\<rparr>"
  by (simp add: relay_step_def relay_start_def demo_answer_square)

end
